theory Spec2Isabelle
  imports Complex_Main "HOL-Library.AList"
begin

section \<open>Python values\<close>

text \<open>
  A Python \<open>str\<close> is a sequence of Unicode code points. It is modelled as a list of
  natural numbers, so that \<open>str.isspace\<close> and the JSON decoder see the same characters
  as the program does. \<open>str ''...''\<close> writes a literal.
\<close>

type_synonym pystr = "nat list"

definition str :: "string \<Rightarrow> pystr" where
  "str s = map of_char s"

lemma str_Nil [simp]: "str [] = []"
  by (simp add: str_def)

text \<open>
  The exceptions that the modelled code can raise. \<open>ExecutionError\<close> stands for any
  exception raised by the command transport (\<open>node.shell\<close>, \<open>client.exec_command\<close>);
  \<open>JSONDecodeError\<close> is what the specification calls \<open>MalformedOutputError\<close>.
\<close>

datatype error =
    ExecutionError
  | JSONDecodeError
  | TypeError
  | KeyError
  | IndexError
  | AttributeError
  | UnboundLocalError

text \<open>
  The values that \<open>json.loads\<close> produces: \<open>None\<close>, \<open>bool\<close>, \<open>int\<close>, \<open>float\<close>, \<open>str\<close>,
  \<open>list\<close> and \<open>dict\<close> (with string keys, in insertion order). A float is kept as the
  text it was read from; the conversion to a double is not needed below.
\<close>

datatype json =
    JNull
  | JBool bool
  | JInt int
  | JFloat pystr
  | JStr pystr
  | JArr "json list"
  | JObj "(pystr \<times> json) list"

text \<open>
  A Python \<open>float\<close> is a double: a finite number, an infinity or not a number. The
  comparison \<open><\<close> is false as soon as one side is not a number. The theorems about
  floats hold for every real number in \<open>Finite\<close>, so for every double.
\<close>

datatype pyfloat = Finite real | PosInf | NegInf | NaN

fun float_less :: "pyfloat \<Rightarrow> pyfloat \<Rightarrow> bool" where
  "float_less NaN _ = False"
| "float_less _ NaN = False"
| "float_less (Finite x) (Finite y) = (x < y)"
| "float_less (Finite x) PosInf = True"
| "float_less (Finite x) NegInf = False"
| "float_less PosInf _ = False"
| "float_less NegInf NegInf = False"
| "float_less NegInf _ = True"

subsection \<open>\<open>str.isspace\<close>, \<open>str.split\<close>, \<open>in\<close>\<close>

text \<open>
  The code points for which CPython's \<open>_PyUnicode_IsWhitespace\<close> answers true.
\<close>

definition is_whitespace :: "nat \<Rightarrow> bool" where
  "is_whitespace c \<longleftrightarrow>
     (0x9 \<le> c \<and> c \<le> 0xD) \<or> (0x1C \<le> c \<and> c \<le> 0x20) \<or> c = 0x85 \<or> c = 0xA0 \<or>
     c = 0x1680 \<or> (0x2000 \<le> c \<and> c \<le> 0x200A) \<or> c = 0x2028 \<or> c = 0x2029 \<or>
     c = 0x202F \<or> c = 0x205F \<or> c = 0x3000"

text \<open>
  \<open>s.isspace()\<close>: true iff \<open>s\<close> has at least one character and all of its characters
  are whitespace. It is false of the empty string.
\<close>

definition isspace :: "pystr \<Rightarrow> bool" where
  "isspace s \<longleftrightarrow> s \<noteq> [] \<and> list_all is_whitespace s"

text \<open>\<open>s.split(sep)\<close> for a separator of one character.\<close>

fun split_acc :: "nat \<Rightarrow> pystr \<Rightarrow> pystr \<Rightarrow> pystr list" where
  "split_acc sep cur [] = [rev cur]"
| "split_acc sep cur (c # cs) =
     (if c = sep then rev cur # split_acc sep [] cs else split_acc sep (c # cur) cs)"

definition split :: "nat \<Rightarrow> pystr \<Rightarrow> pystr list" where
  "split sep s = split_acc sep [] s"

text \<open>\<open>a in b\<close> for two strings: \<open>a\<close> occurs in \<open>b\<close> as a contiguous substring.\<close>

fun str_contains :: "pystr \<Rightarrow> pystr \<Rightarrow> bool" where
  "str_contains a [] \<longleftrightarrow> a = []"
| "str_contains a (c # cs) \<longleftrightarrow> take (length a) (c # cs) = a \<or> str_contains a cs"

subsection \<open>Subscripts and iteration\<close>

text \<open>
  \<open>v[key]\<close> with a string key: only a \<open>dict\<close> can answer; a missing key raises
  \<open>KeyError\<close>, every other type of value raises \<open>TypeError\<close>.
\<close>

fun py_getitem :: "json \<Rightarrow> pystr \<Rightarrow> error + json" where
  "py_getitem (JObj kvs) key =
     (case map_of kvs key of None \<Rightarrow> Inl KeyError | Some v \<Rightarrow> Inr v)"
| "py_getitem _ key = Inl TypeError"

text \<open>
  \<open>v[0]\<close>: the first element of a list or the first character of a string
  (\<open>IndexError\<close> when empty); a \<open>dict\<close> from JSON has no integer key (\<open>KeyError\<close>);
  every other type of value raises \<open>TypeError\<close>.
\<close>

fun py_getitem0 :: "json \<Rightarrow> error + json" where
  "py_getitem0 (JArr []) = Inl IndexError"
| "py_getitem0 (JArr (x # xs)) = Inr x"
| "py_getitem0 (JStr []) = Inl IndexError"
| "py_getitem0 (JStr (c # cs)) = Inr (JStr [c])"
| "py_getitem0 (JObj kvs) = Inl KeyError"
| "py_getitem0 _ = Inl TypeError"

text \<open>
  \<open>for x in v\<close>: the elements of a list, the characters of a string, the keys of a
  \<open>dict\<close>; every other type of value raises \<open>TypeError\<close>.
\<close>

fun py_iter :: "json \<Rightarrow> error + json list" where
  "py_iter (JArr xs) = Inr xs"
| "py_iter (JStr s) = Inr (map (\<lambda>c. JStr [c]) s)"
| "py_iter (JObj kvs) = Inr (map (\<lambda>kv. JStr (fst kv)) kvs)"
| "py_iter _ = Inl TypeError"

text \<open>\<open>v.keys()\<close>: only a \<open>dict\<close> has the method.\<close>

fun py_keys :: "json \<Rightarrow> error + pystr list" where
  "py_keys (JObj kvs) = Inr (map fst kvs)"
| "py_keys _ = Inl AttributeError"

text \<open>\<open>v.split("+")\<close> and \<open>v.lower()\<close>: only a \<open>str\<close> has the methods.\<close>

fun py_str_method :: "json \<Rightarrow> error + pystr" where
  "py_str_method (JStr s) = Inr s"
| "py_str_method _ = Inl AttributeError"

section \<open>\<open>json.loads\<close>\<close>

text \<open>
  The decoder of Python's standard library, as CPython runs it (\<open>json.decoder\<close> with
  the scanner of \<open>_json\<close>, strict mode, no hooks). Every failure is a
  \<open>JSONDecodeError\<close>; the functions below return \<open>None\<close> for it. They work on the
  text that is left to read and return the value read with the text after it. The
  interpreter's limits on the depth of nesting and on the digits of an integer are
  left out.
\<close>

definition is_json_ws :: "nat \<Rightarrow> bool" where
  "is_json_ws c \<longleftrightarrow> c = 0x20 \<or> c = 0x9 \<or> c = 0xA \<or> c = 0xD"

definition skip_ws :: "pystr \<Rightarrow> pystr" where
  "skip_ws s = dropWhile is_json_ws s"

definition is_digit :: "nat \<Rightarrow> bool" where
  "is_digit c \<longleftrightarrow> 0x30 \<le> c \<and> c \<le> 0x39"

definition hexval :: "nat \<Rightarrow> nat option" where
  "hexval c =
     (if 0x30 \<le> c \<and> c \<le> 0x39 then Some (c - 0x30)
      else if 0x61 \<le> c \<and> c \<le> 0x66 then Some (c - 0x61 + 10)
      else if 0x41 \<le> c \<and> c \<le> 0x46 then Some (c - 0x41 + 10)
      else None)"

text \<open>Four hexadecimal digits after \<open>\u\<close>: their code point and the text after them.\<close>

fun hex4 :: "pystr \<Rightarrow> (nat \<times> pystr) option" where
  "hex4 (a # b # c # d # rest) =
     (case (hexval a, hexval b, hexval c, hexval d) of
        (Some x, Some y, Some z, Some w) \<Rightarrow> Some (((x * 16 + y) * 16 + z) * 16 + w, rest)
      | _ \<Rightarrow> None)"
| "hex4 _ = None"

text \<open>The character after a backslash, other than \<open>u\<close>.\<close>

definition backslash :: "nat \<Rightarrow> nat option" where
  "backslash e =
     (if e = 0x22 then Some 0x22
      else if e = 0x5C then Some 0x5C
      else if e = 0x2F then Some 0x2F
      else if e = 0x62 then Some 0x8
      else if e = 0x66 then Some 0xC
      else if e = 0x6E then Some 0xA
      else if e = 0x72 then Some 0xD
      else if e = 0x74 then Some 0x9
      else None)"

text \<open>
  An escape, after its backslash: the character it stands for and the text after it.
  A \<open>\u\<close> escape for a high surrogate that is followed by a \<open>\u\<close> escape for a low
  surrogate stands with it for one character; followed by another \<open>\u\<close> escape it
  stands alone, and that escape is read again afterwards.
\<close>

definition scan_escape :: "pystr \<Rightarrow> (nat \<times> pystr) option" where
  "scan_escape cs =
     (case cs of
        [] \<Rightarrow> None
      | e # cs' \<Rightarrow>
          if e = 0x75 then
            (case hex4 cs' of
               None \<Rightarrow> None
             | Some (u, r) \<Rightarrow>
                 if 0xD800 \<le> u \<and> u \<le> 0xDBFF \<and> take 2 r = [0x5C, 0x75] then
                   (case hex4 (drop 2 r) of
                      None \<Rightarrow> None
                    | Some (u2, r2) \<Rightarrow>
                        if 0xDC00 \<le> u2 \<and> u2 \<le> 0xDFFF
                        then Some (0x10000 + ((u - 0xD800) * 0x400 + (u2 - 0xDC00)), r2)
                        else Some (u, r))
                 else Some (u, r))
          else
            (case backslash e of None \<Rightarrow> None | Some ch \<Rightarrow> Some (ch, cs')))"

lemma hex4_length: "hex4 s = Some (u, r) \<Longrightarrow> length s = length r + 4"
  by (induction s rule: hex4.induct) (auto split: option.splits)

lemma scan_escape_shorter:
  assumes "scan_escape cs = Some (ch, r)"
  shows "length r < length cs"
proof (cases cs)
  case Nil
  with assms show ?thesis by (simp add: scan_escape_def)
next
  case (Cons e cs')
  show ?thesis
  proof (cases "e = 0x75")
    case False
    with assms Cons show ?thesis
      by (auto simp: scan_escape_def split: option.splits)
  next
    case True
    with assms Cons obtain u r1 where h1: "hex4 cs' = Some (u, r1)"
      by (auto simp: scan_escape_def split: option.splits)
    have l1: "length cs' = length r1 + 4"
      using h1 by (rule hex4_length)
    show ?thesis
    proof (cases "0xD800 \<le> u \<and> u \<le> 0xDBFF \<and> take 2 r1 = [0x5C, 0x75]")
      case False
      with assms Cons True h1 have "r = r1"
        by (auto simp: scan_escape_def)
      with l1 Cons show ?thesis by simp
    next
      case pair: True
      with assms Cons True h1 obtain u2 r2 where h2: "hex4 (drop 2 r1) = Some (u2, r2)"
        by (auto simp: scan_escape_def split: option.splits)
      have l2: "length (drop 2 r1) = length r2 + 4"
        using h2 by (rule hex4_length)
      from assms Cons True h1 pair h2 have "r = r2 \<or> r = r1"
        by (auto simp: scan_escape_def split: if_splits)
      with l1 l2 Cons show ?thesis by auto
    qed
  qed
qed

text \<open>
  \<open>scanstring\<close>, after the opening quote: up to the closing quote, with the escapes
  decoded and a control character refused. The characters read so far are kept in
  reverse.
\<close>

function scanstring :: "pystr \<Rightarrow> pystr \<Rightarrow> (pystr \<times> pystr) option" where
  "scanstring acc [] = None"
| "scanstring acc (c # cs) =
     (if c = 0x22 then Some (rev acc, cs)
      else if c = 0x5C then
        (case scan_escape cs of
           None \<Rightarrow> None
         | Some (ch, r) \<Rightarrow> scanstring (ch # acc) r)
      else if c \<le> 0x1F then None
      else scanstring (c # acc) cs)"
  by pat_completeness auto
termination
proof (relation "measure (\<lambda>(acc, s). length s)", goal_cases)
  case 1
  show ?case by simp
next
  case (2 acc c cs x ch r)
  then show ?case using scan_escape_shorter [of cs ch r] by simp
next
  case (3 acc c cs)
  show ?case by simp
qed

lemma scanstring_shorter:
  "scanstring acc s = Some (x, r) \<Longrightarrow> length r < length s"
proof (induction acc s rule: scanstring.induct)
  case (1 acc)
  then show ?case by simp
next
  case (2 acc c cs)
  show ?case
  proof (cases "c = 0x22")
    case True
    with 2 show ?thesis by simp
  next
    case nq: False
    show ?thesis
    proof (cases "c = 0x5C")
      case False
      with nq 2 show ?thesis by (auto split: if_splits)
    next
      case True
      with nq 2(3) obtain ch r1 where e: "scan_escape cs = Some (ch, r1)"
        and s: "scanstring (ch # acc) r1 = Some (x, r)"
        by (auto split: option.splits)
      have "length r < length r1"
        using 2(1) [OF nq True e refl s] .
      moreover have "length r1 < length cs"
        using e by (rule scan_escape_shorter)
      ultimately show ?thesis by simp
    qed
  qed
qed

text \<open>
  A number: an optional minus sign, the integer digits (a lone \<open>0\<close>, or a digit from
  \<open>1\<close> to \<open>9\<close> and the digits after it), a fraction if a dot and a digit follow, an
  exponent if \<open>e\<close> or \<open>E\<close>, an optional sign and a digit follow. Without fraction and
  exponent it is an \<open>int\<close>, otherwise a \<open>float\<close>.
\<close>

definition digits_val :: "pystr \<Rightarrow> nat" where
  "digits_val ds = foldl (\<lambda>a d. a * 10 + (d - 0x30)) 0 ds"

definition scan_minus :: "pystr \<Rightarrow> pystr \<times> pystr" where
  "scan_minus s =
     (case s of [] \<Rightarrow> ([], s) | c # t \<Rightarrow> if c = 0x2D then ([c], t) else ([], s))"

definition scan_int :: "pystr \<Rightarrow> (pystr \<times> pystr) option" where
  "scan_int s =
     (case s of
        [] \<Rightarrow> None
      | d # t \<Rightarrow>
          if \<not> is_digit d then None
          else if d = 0x30 then Some ([d], t)
          else Some (d # takeWhile is_digit t, dropWhile is_digit t))"

definition scan_frac :: "pystr \<Rightarrow> pystr \<times> pystr" where
  "scan_frac r =
     (case r of
        p # d1 # t1 \<Rightarrow>
          if p = 0x2E \<and> is_digit d1
          then (p # d1 # takeWhile is_digit t1, dropWhile is_digit t1)
          else ([], r)
      | _ \<Rightarrow> ([], r))"

definition scan_sign :: "pystr \<Rightarrow> pystr \<times> pystr" where
  "scan_sign s =
     (case s of [] \<Rightarrow> ([], s)
      | g # t \<Rightarrow> if g = 0x2B \<or> g = 0x2D then ([g], t) else ([], s))"

definition scan_exp :: "pystr \<Rightarrow> pystr \<times> pystr" where
  "scan_exp r =
     (case r of
        [] \<Rightarrow> ([], r)
      | e # t \<Rightarrow>
          if e = 0x65 \<or> e = 0x45 then
            (case takeWhile is_digit (snd (scan_sign t)) of
               [] \<Rightarrow> ([], r)
             | dg # ds \<Rightarrow>
                 (e # fst (scan_sign t) @ dg # ds, dropWhile is_digit (snd (scan_sign t))))
          else ([], r))"

definition match_number :: "pystr \<Rightarrow> (json \<times> pystr) option" where
  "match_number s =
     (case scan_int (snd (scan_minus s)) of
        None \<Rightarrow> None
      | Some (ip, r) \<Rightarrow>
          (let sign = fst (scan_minus s);
               frac = fst (scan_frac r);
               ex = fst (scan_exp (snd (scan_frac r)));
               rest = snd (scan_exp (snd (scan_frac r)))
           in if frac = [] \<and> ex = []
              then Some (JInt (if sign = [] then int (digits_val ip)
                               else - int (digits_val ip)), rest)
              else Some (JFloat (sign @ ip @ frac @ ex), rest)))"

lemma scan_minus_length: "length (snd (scan_minus s)) \<le> length s"
  by (simp add: scan_minus_def split: list.splits)

lemma scan_int_shorter: "scan_int s = Some (ip, r) \<Longrightarrow> length r < length s"
  using length_dropWhile_le [of is_digit]
  by (auto simp: scan_int_def less_Suc_eq_le split: list.splits if_splits)

lemma scan_frac_length: "length (snd (scan_frac r)) \<le> length r"
proof (cases r)
  case Nil
  then show ?thesis by (simp add: scan_frac_def)
next
  case (Cons p r')
  show ?thesis
  proof (cases r')
    case Nil
    with Cons show ?thesis by (simp add: scan_frac_def)
  next
    case (Cons d1 t1)
    with \<open>r = p # r'\<close> show ?thesis
      using length_dropWhile_le [of is_digit t1] by (simp add: scan_frac_def)
  qed
qed

lemma scan_sign_length: "length (snd (scan_sign s)) \<le> length s"
  by (simp add: scan_sign_def split: list.splits)

lemma scan_exp_length: "length (snd (scan_exp r)) \<le> length r"
proof (cases r)
  case Nil
  then show ?thesis by (simp add: scan_exp_def)
next
  case (Cons e t)
  have "length (dropWhile is_digit (snd (scan_sign t))) \<le> length t"
    using length_dropWhile_le [of is_digit "snd (scan_sign t)"] scan_sign_length [of t]
    by simp
  with Cons show ?thesis
    by (simp add: scan_exp_def split: list.splits)
qed

lemma match_number_shorter:
  assumes "match_number s = Some (v, r)"
  shows "length r < length s"
proof -
  from assms obtain ip r0 where i: "scan_int (snd (scan_minus s)) = Some (ip, r0)"
    by (auto simp: match_number_def split: option.splits)
  with assms have "r = snd (scan_exp (snd (scan_frac r0)))"
    by (simp add: match_number_def Let_def split: if_splits)
  moreover have "length (snd (scan_exp (snd (scan_frac r0)))) \<le> length r0"
    using scan_exp_length [of "snd (scan_frac r0)"] scan_frac_length [of r0] by simp
  moreover have "length r0 < length (snd (scan_minus s))"
    using i by (rule scan_int_shorter)
  ultimately show ?thesis
    using scan_minus_length [of s] by simp
qed

text \<open>\<open>dict(pairs)\<close>: a key that comes again keeps its place and takes the new value.\<close>

definition dict :: "(pystr \<times> json) list \<Rightarrow> (pystr \<times> json) list" where
  "dict pairs = foldl (\<lambda>d kv. AList.update (fst kv) (snd kv) d) [] pairs"

text \<open>
  A value that is neither a list nor an object: a string, one of the constants, or a
  number.
\<close>

definition scan_atom :: "pystr \<Rightarrow> (json \<times> pystr) option" where
  "scan_atom s =
     (if take 1 s = [0x22] then
        (case scanstring [] (drop 1 s) of None \<Rightarrow> None | Some (x, r) \<Rightarrow> Some (JStr x, r))
      else if take 4 s = str ''null'' then Some (JNull, drop 4 s)
      else if take 4 s = str ''true'' then Some (JBool True, drop 4 s)
      else if take 5 s = str ''false'' then Some (JBool False, drop 5 s)
      else if take 3 s = str ''NaN'' then Some (JFloat (str ''NaN''), drop 3 s)
      else if take 8 s = str ''Infinity'' then Some (JFloat (str ''Infinity''), drop 8 s)
      else if take 9 s = str ''-Infinity'' then Some (JFloat (str ''-Infinity''), drop 9 s)
      else match_number s)"

text \<open>
  The key of an object's member: a string in double quotes, whitespace, a colon,
  whitespace. The result is the key and the text from the member's value on.
\<close>

definition scan_key :: "pystr \<Rightarrow> (pystr \<times> pystr) option" where
  "scan_key s =
     (case s of
        [] \<Rightarrow> None
      | q # s1 \<Rightarrow>
          if q \<noteq> 0x22 then None
          else
            (case scanstring [] s1 of
               None \<Rightarrow> None
             | Some (key, r) \<Rightarrow>
                 (case skip_ws r of
                    [] \<Rightarrow> None
                  | col # r1 \<Rightarrow> if col \<noteq> 0x3A then None else Some (key, skip_ws r1))))"

lemma length_skip_ws: "length (skip_ws s) \<le> length s"
  by (simp add: skip_ws_def length_dropWhile_le)

lemma skip_ws_Cons_shorter: "skip_ws s = d # r \<Longrightarrow> length r < length s"
  using length_skip_ws [of s] by simp

text \<open>
  \<open>scan_once\<close> reads one value. \<open>parse_array\<close> reads the items of a list from its
  first item on, \<open>parse_object\<close> the members of an object from the quote of its first
  key on; both keep what they have read in reverse. Whitespace may stand between any
  two tokens. The tests that a key and a value have used up some text always succeed
  (\<open>scan_key_shorter\<close>, \<open>scan_once_shorter\<close>); they are there for the termination
  proof.
\<close>

function scan_once :: "pystr \<Rightarrow> (json \<times> pystr) option"
  and parse_array :: "json list \<Rightarrow> pystr \<Rightarrow> (json \<times> pystr) option"
  and parse_object :: "(pystr \<times> json) list \<Rightarrow> pystr \<Rightarrow> (json \<times> pystr) option"
where
  "scan_once [] = None"
| "scan_once (c # cs) =
     (if c = 0x7B then
        (case skip_ws cs of
           [] \<Rightarrow> None
         | d # r \<Rightarrow> if d = 0x7D then Some (JObj [], r) else parse_object [] (d # r))
      else if c = 0x5B then
        (case skip_ws cs of
           [] \<Rightarrow> None
         | d # r \<Rightarrow> if d = 0x5D then Some (JArr [], r) else parse_array [] (d # r))
      else scan_atom (c # cs))"
| "parse_array acc s =
     (case scan_once s of
        None \<Rightarrow> None
      | Some (v, r) \<Rightarrow>
          if length r < length s then
            (case skip_ws r of
               [] \<Rightarrow> None
             | d # r' \<Rightarrow>
                 if d = 0x5D then Some (JArr (rev (v # acc)), r')
                 else if d = 0x2C then parse_array (v # acc) (skip_ws r')
                 else None)
          else None)"
| "parse_object acc s =
     (case scan_key s of
        None \<Rightarrow> None
      | Some (key, r1) \<Rightarrow>
          if length r1 < length s then
            (case scan_once r1 of
               None \<Rightarrow> None
             | Some (v, r2) \<Rightarrow>
                 if length r2 < length r1 then
                   (case skip_ws r2 of
                      [] \<Rightarrow> None
                    | d # r3 \<Rightarrow>
                        if d = 0x7D then Some (JObj (dict (rev ((key, v) # acc))), r3)
                        else if d = 0x2C then parse_object ((key, v) # acc) (skip_ws r3)
                        else None)
                 else None)
          else None)"
  by pat_completeness auto

termination
proof (relation "measure (\<lambda>x. case x of
          Inl s \<Rightarrow> 2 * length s
        | Inr (Inl (acc, s)) \<Rightarrow> 2 * length s + 1
        | Inr (Inr (acc, s)) \<Rightarrow> 2 * length s + 1)", goal_cases)
  case 1
  show ?case by simp
next
  case (2 c cs d r)
  then show ?case using skip_ws_Cons_shorter [of cs d r] by simp
next
  case (3 c cs d r)
  then show ?case using skip_ws_Cons_shorter [of cs d r] by simp
next
  case (4 acc s)
  show ?case by simp
next
  case (5 acc s x v r d r')
  then show ?case
    using skip_ws_Cons_shorter [of r d r'] length_skip_ws [of r'] by simp
next
  case (6 acc s x key r1)
  then show ?case by simp
next
  case (7 acc s x key r1 y v r2 d r3)
  then show ?case
    using skip_ws_Cons_shorter [of r2 d r3] length_skip_ws [of r3] by simp
qed

lemma take_drop_shorter:
  assumes "take n s = lit" and "length lit = n" and "0 < n"
  shows "length (drop n s) < length s"
proof -
  have "n \<le> length s"
    using assms(1,2) by (metis length_take min.cobounded1)
  with assms(3) show ?thesis by simp
qed

lemma scan_atom_shorter:
  assumes "scan_atom s = Some (v, r)"
  shows "length r < length s"
proof (cases "take 1 s = [0x22]")
  case True
  with assms obtain x where "scanstring [] (drop 1 s) = Some (x, r)"
    by (auto simp: scan_atom_def split: option.splits)
  then have "length r < length (drop 1 s)"
    by (rule scanstring_shorter)
  then show ?thesis by simp
next
  case False
  have lit: "length (drop n s) < length s" if "take n s = str l" and "length l = n" and "0 < n"
    for n l
    using that by (intro take_drop_shorter [of n s "str l"]) (simp_all add: str_def)
  from assms False consider
      "take 4 s = str ''null''" "r = drop 4 s"
    | "take 4 s = str ''true''" "r = drop 4 s"
    | "take 5 s = str ''false''" "r = drop 5 s"
    | "take 3 s = str ''NaN''" "r = drop 3 s"
    | "take 8 s = str ''Infinity''" "r = drop 8 s"
    | "take 9 s = str ''-Infinity''" "r = drop 9 s"
    | "match_number s = Some (v, r)"
    by (auto simp: scan_atom_def split: if_splits)
  then show ?thesis
  proof cases
    case 1 then show ?thesis using lit [of 4 "''null''"] by simp
  next
    case 2 then show ?thesis using lit [of 4 "''true''"] by simp
  next
    case 3 then show ?thesis using lit [of 5 "''false''"] by simp
  next
    case 4 then show ?thesis using lit [of 3 "''NaN''"] by simp
  next
    case 5 then show ?thesis using lit [of 8 "''Infinity''"] by simp
  next
    case 6 then show ?thesis using lit [of 9 "''-Infinity''"] by simp
  next
    case 7 then show ?thesis by (rule match_number_shorter)
  qed
qed

lemma scan_key_shorter:
  assumes "scan_key s = Some (key, r)"
  shows "length r < length s"
proof -
  from assms obtain q s1 where s: "s = q # s1"
    by (cases s) (auto simp: scan_key_def)
  with assms obtain k0 r0 col r1 where k: "scanstring [] s1 = Some (k0, r0)"
    and c: "skip_ws r0 = col # r1" and r: "r = skip_ws r1"
    by (auto simp: scan_key_def split: if_splits option.splits list.splits)
  have "length r0 < length s1"
    using k by (rule scanstring_shorter)
  moreover have "length r1 < length r0"
    using c by (rule skip_ws_Cons_shorter)
  moreover have "length r \<le> length r1"
    using r length_skip_ws [of r1] by simp
  ultimately show ?thesis using s by simp
qed

lemma scan_once_shorter:
  "scan_once s = Some (v, r) \<Longrightarrow> length r < length s"
  "parse_array acc s = Some (v, r) \<Longrightarrow> length r < length s"
  "parse_object acc' s = Some (v, r) \<Longrightarrow> length r < length s"
proof (induction s and acc s and acc' s arbitrary: v r and v r and v r
    rule: scan_once_parse_array_parse_object.induct)
  case 1
  then show ?case by simp
next
  case (2 c cs)
  show ?case
  proof (cases "c = 0x7B")
    case True
    with "2.prems" obtain d r' where sk: "skip_ws cs = d # r'"
      by (cases "skip_ws cs") auto
    have l: "length r' < length cs"
      using sk by (rule skip_ws_Cons_shorter)
    show ?thesis
    proof (cases "d = 0x7D")
      case True
      with \<open>c = 0x7B\<close> sk "2.prems" l show ?thesis by simp
    next
      case False
      with \<open>c = 0x7B\<close> sk "2.prems" have "parse_object [] (d # r') = Some (v, r)" by simp
      with "2.IH"(1) [OF \<open>c = 0x7B\<close> sk False] have "length r < length (d # r')" by blast
      with l show ?thesis by simp
    qed
  next
    case nb: False
    show ?thesis
    proof (cases "c = 0x5B")
      case True
      with nb "2.prems" obtain d r' where sk: "skip_ws cs = d # r'"
        by (cases "skip_ws cs") auto
      have l: "length r' < length cs"
        using sk by (rule skip_ws_Cons_shorter)
      show ?thesis
      proof (cases "d = 0x5D")
        case True
        with nb \<open>c = 0x5B\<close> sk "2.prems" l show ?thesis by simp
      next
        case False
        with nb \<open>c = 0x5B\<close> sk "2.prems" have "parse_array [] (d # r') = Some (v, r)" by simp
        with "2.IH"(2) [OF nb \<open>c = 0x5B\<close> sk False] have "length r < length (d # r')" by blast
        with l show ?thesis by simp
      qed
    next
      case False
      with nb "2.prems" have "scan_atom (c # cs) = Some (v, r)" by simp
      then show ?thesis by (rule scan_atom_shorter)
    qed
  qed
next
  case (3 acc s)
  from "3.prems" obtain x r0 where so: "scan_once s = Some (x, r0)" and l0: "length r0 < length s"
    by (subst (asm) parse_array.simps) (auto split: option.splits if_splits)
  with "3.prems" obtain d r' where sk: "skip_ws r0 = d # r'"
    by (subst (asm) parse_array.simps) (auto split: list.splits)
  have l1: "length r' < length r0"
    using sk by (rule skip_ws_Cons_shorter)
  show ?case
  proof (cases "d = 0x5D")
    case True
    with "3.prems" so l0 sk have "r = r'"
      by (subst (asm) parse_array.simps) simp
    with l0 l1 show ?thesis by simp
  next
    case False
    with "3.prems" so l0 sk have c: "d = 0x2C"
      and p: "parse_array (x # acc) (skip_ws r') = Some (v, r)"
      by (subst (asm) parse_array.simps, simp split: if_splits)+
    have "length r < length (skip_ws r')"
      using "3.IH"(2) [OF so refl l0 sk False c p] .
    with l0 l1 length_skip_ws [of r'] show ?thesis by simp
  qed
next
  case (4 acc s)
  from "4.prems" obtain key r1 where k: "scan_key s = Some (key, r1)"
    and l1: "length r1 < length s"
    by (subst (asm) parse_object.simps) (auto split: option.splits if_splits)
  with "4.prems" obtain x r2 where so: "scan_once r1 = Some (x, r2)"
    and l2: "length r2 < length r1"
    by (subst (asm) parse_object.simps) (auto split: option.splits if_splits)
  with "4.prems" k l1 obtain d r3 where sk: "skip_ws r2 = d # r3"
    by (subst (asm) parse_object.simps) (auto split: list.splits)
  have l3: "length r3 < length r2"
    using sk by (rule skip_ws_Cons_shorter)
  show ?case
  proof (cases "d = 0x7D")
    case True
    with "4.prems" k l1 so l2 sk have "r = r3"
      by (subst (asm) parse_object.simps) simp
    with l1 l2 l3 show ?thesis by simp
  next
    case False
    with "4.prems" k l1 so l2 sk have c: "d = 0x2C"
      and p: "parse_object ((key, x) # acc) (skip_ws r3) = Some (v, r)"
      by (subst (asm) parse_object.simps, simp split: if_splits)+
    have "length r < length (skip_ws r3)"
      using "4.IH"(2) [OF k refl l1 so refl l2 sk False c p] .
    with l1 l2 l3 length_skip_ws [of r3] show ?thesis by simp
  qed
qed

text \<open>So the two tests can be left out: the items of a list and the members of an object.\<close>

lemma parse_array_unfold:
  "parse_array acc s =
     (case scan_once s of
        None \<Rightarrow> None
      | Some (v, r) \<Rightarrow>
          (case skip_ws r of
             [] \<Rightarrow> None
           | d # r' \<Rightarrow>
               if d = 0x5D then Some (JArr (rev (v # acc)), r')
               else if d = 0x2C then parse_array (v # acc) (skip_ws r')
               else None))"
  by (subst parse_array.simps) (auto split: option.splits dest: scan_once_shorter(1))

lemma parse_object_unfold:
  "parse_object acc s =
     (case scan_key s of
        None \<Rightarrow> None
      | Some (key, r1) \<Rightarrow>
          (case scan_once r1 of
             None \<Rightarrow> None
           | Some (v, r2) \<Rightarrow>
               (case skip_ws r2 of
                  [] \<Rightarrow> None
                | d # r3 \<Rightarrow>
                    if d = 0x7D then Some (JObj (dict (rev ((key, v) # acc))), r3)
                    else if d = 0x2C then parse_object ((key, v) # acc) (skip_ws r3)
                    else None)))"
  by (subst parse_object.simps)
    (auto split: option.splits dest: scan_once_shorter(1) scan_key_shorter)

text \<open>
  \<open>json.loads(s)\<close>: whitespace, one value, whitespace, and nothing more.
\<close>

definition json_loads :: "pystr \<Rightarrow> error + json" where
  "json_loads s =
     (case scan_once (skip_ws s) of
        None \<Rightarrow> Inl JSONDecodeError
      | Some (v, r) \<Rightarrow> if skip_ws r = [] then Inr v else Inl JSONDecodeError)"

section \<open>The cluster, the clock and the log\<close>

text \<open>
  The program talks to the cluster through two calls: \<open>self.node.shell([cmd])\<close> on the
  administration node and \<open>self.client.exec_command(cmd=cmd, sudo=True)\<close> on the
  client node. Each takes some time and then either raises or returns the text the
  command has printed. The cluster is a script: its answer depends on how many
  commands have been run before, on the node and on the command. A time limit given
  with the call is the transport's matter, which raises when it is exceeded.

  The environment also holds two builtins that are not modelled: \<open>str.lower\<close> with
  its Unicode tables, and \<open>float(v)\<close> with its rounding to a double.
\<close>

datatype target = Node | Client

record response =
  latency :: nat
  outcome :: "error + pystr"

record env =
  respond :: "nat \<Rightarrow> target \<Rightarrow> pystr \<Rightarrow> response"
  str_lower :: "pystr \<Rightarrow> pystr"
  py_float :: "json \<Rightarrow> error + pyfloat"

datatype level = DEBUG | INFO | ERROR

text \<open>
  What the program can observe and change: the wall clock in microseconds (the unit
  of \<open>datetime\<close>), the number of commands run, the commands run, the calls of
  \<open>time.sleep\<close> with their seconds, and the log (level and the fixed part of the
  message). The clock advances by the time a command takes and by the seconds slept,
  and by nothing else: it is never set back, and \<open>time.sleep\<close> does not oversleep.
\<close>

record world =
  clock :: nat
  ncalls :: nat
  issued :: "(target \<times> pystr) list"
  sleeps :: "nat list"
  logs :: "(level \<times> string) list"

definition exec_command :: "env \<Rightarrow> target \<Rightarrow> pystr \<Rightarrow> world \<Rightarrow> (error + pystr) \<times> world" where
  "exec_command E t cmd w =
     (let r = respond E (ncalls w) t cmd
      in (outcome r,
          w\<lparr>clock := clock w + latency r, ncalls := Suc (ncalls w),
            issued := issued w @ [(t, cmd)]\<rparr>))"

definition sleep :: "nat \<Rightarrow> world \<Rightarrow> world" where
  "sleep secs w = w\<lparr>clock := clock w + secs * 1000000, sleeps := sleeps w @ [secs]\<rparr>"

definition log_at :: "level \<Rightarrow> string \<Rightarrow> world \<Rightarrow> world" where
  "log_at l msg w = w\<lparr>logs := logs w @ [(l, msg)]\<rparr>"

lemma log_at_fields [simp]:
  "clock (log_at l msg w) = clock w" "ncalls (log_at l msg w) = ncalls w"
  "sleeps (log_at l msg w) = sleeps w" "issued (log_at l msg w) = issued w"
  by (simp_all add: log_at_def)

lemma sleep_fields [simp]:
  "clock (sleep secs w) = clock w + secs * 1000000" "ncalls (sleep secs w) = ncalls w"
  "sleeps (sleep secs w) = sleeps w @ [secs]" "issued (sleep secs w) = issued w"
  by (simp_all add: sleep_def)

section \<open>\<open>run_ceph_command\<close>\<close>

text \<open>
  Lines 147 to 170. The command gets \<open>-f json\<close> appended and runs on the client node
  or on the administration node. An exception of the transport is caught and logged,
  and \<open>None\<close> is returned. Output for which \<open>isspace\<close> holds gives the empty \<open>dict\<close>;
  any other output goes to \<open>json.loads\<close>, whose exception is not caught.
\<close>

definition run_ceph_command :: "env \<Rightarrow> pystr \<Rightarrow> bool \<Rightarrow> world \<Rightarrow> (error + json) \<times> world" where
  "run_ceph_command E cmd client_exec w =
     (case exec_command E (if client_exec then Client else Node) (cmd @ str '' -f json'') w of
        (Inl er, w1) \<Rightarrow> (Inr JNull, log_at ERROR ''Exception hit while command execution.'' w1)
      | (Inr out, w1) \<Rightarrow>
          if isspace out then (Inr (JObj []), w1)
          else (json_loads out, w1))"

section \<open>Example clusters\<close>

text \<open>
  A cluster that answers the first commands from a list and fails every later one;
  the world before any command; \<open>str.lower\<close> on ASCII letters; \<open>float\<close> on integers
  below \<open>2^53\<close> and on the texts \<open>0.9375\<close> and \<open>0.5\<close>, which are doubles.
\<close>

definition example_float :: "json \<Rightarrow> error + pyfloat" where
  "example_float v =
     (case v of
        JInt i \<Rightarrow> if \<bar>i\<bar> < 2 ^ 53 then Inr (Finite (of_int i)) else Inl TypeError
      | JFloat t \<Rightarrow>
          if t = str ''0.9375'' then Inr (Finite (15 / 16))
          else if t = str ''0.5'' then Inr (Finite (1 / 2))
          else Inl TypeError
      | _ \<Rightarrow> Inl TypeError)"

definition ascii_lower :: "pystr \<Rightarrow> pystr" where
  "ascii_lower s = map (\<lambda>c. if 0x41 \<le> c \<and> c \<le> 0x5A then c + 0x20 else c) s"

definition scripted :: "response list \<Rightarrow> env" where
  "scripted rs =
     \<lparr>respond = (\<lambda>n t cmd. if n < length rs then rs ! n
                              else \<lparr>latency = 0, outcome = Inl ExecutionError\<rparr>),
      str_lower = ascii_lower, py_float = example_float\<rparr>"

definition prints :: "nat \<Rightarrow> string \<Rightarrow> response" where
  "prints l s = \<lparr>latency = l, outcome = Inr (str s)\<rparr>"

definition world0 :: world where
  "world0 = \<lparr>clock = 0, ncalls = 0, issued = [], sleeps = [], logs = []\<rparr>"

section \<open>Properties of \<open>run_ceph_command\<close>\<close>

lemma run_ceph_command_whitespace:
  assumes "outcome (respond E (ncalls w) (if ce then Client else Node) (cmd @ str '' -f json''))
           = Inr out"
    and "isspace out"
  shows "fst (run_ceph_command E cmd ce w) = Inr (JObj [])"
  using assms by (simp add: run_ceph_command_def exec_command_def Let_def)

lemma json_loads_empty: "json_loads [] = Inl JSONDecodeError"
  by (simp add: json_loads_def skip_ws_def)

text \<open>
  C1. For output that is empty or only whitespace, \<open>run_ceph_command\<close> is claimed to
  return the empty document and not to raise. For whitespace that is not empty it
  does (\<open>run_ceph_command_whitespace\<close>). For the empty string \<open>isspace\<close> is false, the
  text goes to the decoder, and the call raises \<open>JSONDecodeError\<close>: here on a cluster
  whose command prints nothing.
\<close>

theorem run_ceph_command_empty_output_raises:
  "fst (run_ceph_command (scripted [prints 0 []]) (str ''ceph df'') False world0)
   = Inl JSONDecodeError"
  by (simp add: run_ceph_command_def exec_command_def Let_def scripted_def prints_def
      world0_def str_def isspace_def json_loads_empty)

text \<open>
  C2, as amended. When the call of the transport raises, \<open>run_ceph_command\<close> does not
  raise: it writes the exception to the error log and returns \<open>None\<close>.
\<close>

theorem run_ceph_command_transport_failure:
  assumes "outcome (respond E (ncalls w) (if ce then Client else Node) (cmd @ str '' -f json''))
           = Inl er"
  shows "fst (run_ceph_command E cmd ce w) = Inr JNull \<and>
         logs (snd (run_ceph_command E cmd ce w))
         = logs w @ [(ERROR, ''Exception hit while command execution.'')]"
  using assms by (simp add: run_ceph_command_def exec_command_def Let_def log_at_def)

theorem run_ceph_command_transport_failure_witness:
  "outcome (respond (scripted []) (ncalls world0) (if False then Client else Node)
      (str ''ceph df'' @ str '' -f json'')) = Inl ExecutionError \<and>
   fst (run_ceph_command (scripted []) (str ''ceph df'') False world0) = Inr JNull \<and>
   logs (snd (run_ceph_command (scripted []) (str ''ceph df'') False world0))
   = logs world0 @ [(ERROR, ''Exception hit while command execution.'')]"
proof -
  have h: "outcome (respond (scripted []) (ncalls world0) (if False then Client else Node)
      (str ''ceph df'' @ str '' -f json'')) = Inl ExecutionError"
    by (simp add: scripted_def)
  show ?thesis
    using h run_ceph_command_transport_failure [OF h] by simp
qed

text \<open>
  C2, as stated, fails: on a cluster that cannot be reached the call of the transport
  raises \<open>ExecutionError\<close>, and \<open>run_ceph_command\<close> returns \<open>None\<close> to its caller.
\<close>

theorem run_ceph_command_swallows_counterexample:
  "outcome (respond (scripted []) 0 Client (str ''ceph report -f json'')) = Inl ExecutionError \<and>
   fst (run_ceph_command (scripted []) (str ''ceph report'') True world0) = Inr JNull"
  by (simp add: run_ceph_command_def exec_command_def Let_def scripted_def world0_def
      str_def log_at_def)

text \<open>
  C3, as amended. For output that is not empty, not only whitespace and not valid
  JSON, \<open>run_ceph_command\<close> raises the decoder's error and returns no document.
\<close>

theorem run_ceph_command_malformed:
  assumes "outcome (respond E (ncalls w) (if ce then Client else Node) (cmd @ str '' -f json''))
           = Inr out"
    and "out \<noteq> []" and "\<not> isspace out" and "json_loads out = Inl er"
  shows "fst (run_ceph_command E cmd ce w) = Inl er"
  using assms by (simp add: run_ceph_command_def exec_command_def Let_def)

lemma json_loads_not_json: "json_loads (str ''not json'') = Inl JSONDecodeError"
  by (simp add: json_loads_def skip_ws_def is_json_ws_def str_def scan_atom_def
      match_number_def scan_minus_def scan_int_def is_digit_def)

theorem run_ceph_command_malformed_witness:
  "outcome (respond (scripted [prints 0 ''not json'']) (ncalls world0)
      (if False then Client else Node) (str ''ceph df'' @ str '' -f json''))
     = Inr (str ''not json'') \<and>
   str ''not json'' \<noteq> [] \<and> \<not> isspace (str ''not json'') \<and>
   json_loads (str ''not json'') = Inl JSONDecodeError \<and>
   fst (run_ceph_command (scripted [prints 0 ''not json'']) (str ''ceph df'') False world0)
     = Inl JSONDecodeError"
proof -
  have h1: "outcome (respond (scripted [prints 0 ''not json'']) (ncalls world0)
      (if False then Client else Node) (str ''ceph df'' @ str '' -f json''))
     = Inr (str ''not json'')"
    by (simp add: scripted_def prints_def world0_def)
  have h2: "str ''not json'' \<noteq> []"
    by (simp add: str_def)
  have h3: "\<not> isspace (str ''not json'')"
    by (simp add: isspace_def str_def is_whitespace_def)
  show ?thesis
    using h1 h2 h3 json_loads_not_json
      run_ceph_command_malformed [OF h1 h2 h3 json_loads_not_json]
    by simp
qed

text \<open>
  C3, as stated, fails: one blank is not empty and is not valid JSON, and for it
  \<open>run_ceph_command\<close> returns the empty \<open>dict\<close>.
\<close>

theorem run_ceph_command_blank_counterexample:
  "str '' '' \<noteq> [] \<and> json_loads (str '' '') = Inl JSONDecodeError \<and>
   fst (run_ceph_command (scripted [prints 0 '' '']) (str ''ceph df'') False world0)
   = Inr (JObj [])"
  by (simp add: run_ceph_command_def exec_command_def Let_def scripted_def prints_def
      world0_def str_def isspace_def is_whitespace_def json_loads_def skip_ws_def
      is_json_ws_def)

section \<open>\<open>check_pg_state\<close>\<close>

text \<open>
  Lines 64 to 82. The loop over \<open>pg_stats["pg_stats"]\<close> returns the \<open>state\<close> of the
  first entry whose \<open>pgid\<close> equals the given one; when it ends, the error is logged and
  the empty list is returned. A string equals a decoded value only if the value is
  that string.
\<close>

fun check_pg_state_loop :: "pystr \<Rightarrow> json list \<Rightarrow> world \<Rightarrow> (error + json) \<times> world" where
  "check_pg_state_loop pgid [] w =
     (Inr (JArr []), log_at ERROR ''could not find the given pg'' w)"
| "check_pg_state_loop pgid (pg # pgs) w =
     (case py_getitem pg (str ''pgid'') of
        Inl e \<Rightarrow> (Inl e, w)
      | Inr v \<Rightarrow>
          if v = JStr pgid then
            (case py_getitem pg (str ''state'') of
               Inl e \<Rightarrow> (Inl e, w)
             | Inr st \<Rightarrow> (Inr st, w))
          else check_pg_state_loop pgid pgs w)"

definition check_pg_state :: "env \<Rightarrow> pystr \<Rightarrow> world \<Rightarrow> (error + json) \<times> world" where
  "check_pg_state E pgid w =
     (case run_ceph_command E (str ''ceph pg dump pgs'') False
             (log_at DEBUG ''Checking the PG state for PG ID'' w) of
        (Inl e, w1) \<Rightarrow> (Inl e, w1)
      | (Inr pg_stats, w1) \<Rightarrow>
          (case py_getitem pg_stats (str ''pg_stats'') of
             Inl e \<Rightarrow> (Inl e, w1)
           | Inr l \<Rightarrow>
               (case py_iter l of
                  Inl e \<Rightarrow> (Inl e, w1)
                | Inr pgs \<Rightarrow> check_pg_state_loop pgid pgs w1)))"

lemmas decode_simps =
  json_loads_def skip_ws_def is_json_ws_def str_def scan_atom_def scan_key_def
  scan_escape_def match_number_def scan_minus_def scan_int_def scan_frac_def
  scan_sign_def scan_exp_def is_digit_def dict_def digits_val_def backslash_def
  hexval_def

lemma check_pg_state_loop_find:
  assumes "\<forall>pg \<in> set pgs. \<exists>kvs p st. pg = JObj kvs \<and> map_of kvs (str ''pgid'') = Some p \<and>
             map_of kvs (str ''state'') = Some st"
  shows "fst (check_pg_state_loop pgid pgs w) =
         (case find (\<lambda>pg. py_getitem pg (str ''pgid'') = Inr (JStr pgid)) pgs of
            None \<Rightarrow> Inr (JArr [])
          | Some pg \<Rightarrow> py_getitem pg (str ''state''))"
  using assms
proof (induction pgs)
  case Nil
  show ?case by simp
next
  case (Cons pg pgs)
  from Cons.prems obtain kvs p st where pg: "pg = JObj kvs"
    and p: "map_of kvs (str ''pgid'') = Some p" and st: "map_of kvs (str ''state'') = Some st"
    by auto
  show ?case
  proof (cases "p = JStr pgid")
    case True
    with pg p st show ?thesis by simp
  next
    case False
    with pg p st Cons show ?thesis by simp
  qed
qed

text \<open>
  C9. Let the fetch return a document whose \<open>pg_stats\<close> is a list of objects that
  each have a \<open>pgid\<close> and a \<open>state\<close>. If no entry has the given PG id,
  \<open>check_pg_state\<close> returns the empty list and does not raise; otherwise it returns
  the \<open>state\<close> of the (first) entry with that id.
\<close>

theorem check_pg_state_result:
  assumes "fst (run_ceph_command E (str ''ceph pg dump pgs'') False
                 (log_at DEBUG ''Checking the PG state for PG ID'' w)) = Inr doc"
    and "py_getitem doc (str ''pg_stats'') = Inr (JArr pgs)"
    and "\<forall>pg \<in> set pgs. \<exists>kvs p st. pg = JObj kvs \<and> map_of kvs (str ''pgid'') = Some p \<and>
             map_of kvs (str ''state'') = Some st"
  shows "fst (check_pg_state E pgid w) =
         (case find (\<lambda>pg. py_getitem pg (str ''pgid'') = Inr (JStr pgid)) pgs of
            None \<Rightarrow> Inr (JArr [])
          | Some pg \<Rightarrow> py_getitem pg (str ''state''))"
proof -
  obtain r w1 where rc: "run_ceph_command E (str ''ceph pg dump pgs'') False
                 (log_at DEBUG ''Checking the PG state for PG ID'' w) = (r, w1)"
    by (cases "run_ceph_command E (str ''ceph pg dump pgs'') False
                 (log_at DEBUG ''Checking the PG state for PG ID'' w)")
  with assms(1) have r: "r = Inr doc" by simp
  have "fst (check_pg_state E pgid w) = fst (check_pg_state_loop pgid pgs w1)"
    by (simp add: check_pg_state_def rc r assms(2))
  then show ?thesis
    using check_pg_state_loop_find [OF assms(3)] by simp
qed

definition pg_dump_example :: string where
  "pg_dump_example =
     ''{\"pg_stats\": [{\"pgid\": \"1.0\", \"state\": \"active+clean\"}, {\"pgid\": \"1.1\", \"state\": \"active+remapped\"}]}''"

definition pg_list_example :: "json list" where
  "pg_list_example =
     [JObj [(str ''pgid'', JStr (str ''1.0'')), (str ''state'', JStr (str ''active+clean''))],
      JObj [(str ''pgid'', JStr (str ''1.1'')), (str ''state'', JStr (str ''active+remapped''))]]"

lemma pg_dump_example_loads:
  "json_loads (str pg_dump_example) = Inr (JObj [(str ''pg_stats'', JArr pg_list_example)])"
  by (simp add: pg_dump_example_def pg_list_example_def decode_simps)

lemma pg_dump_example_not_space: "\<not> isspace (str pg_dump_example)"
  by (simp add: pg_dump_example_def isspace_def is_whitespace_def str_def)

theorem check_pg_state_result_witness:
  "fst (run_ceph_command (scripted [prints 0 pg_dump_example]) (str ''ceph pg dump pgs'') False
         (log_at DEBUG ''Checking the PG state for PG ID'' world0))
     = Inr (JObj [(str ''pg_stats'', JArr pg_list_example)]) \<and>
   py_getitem (JObj [(str ''pg_stats'', JArr pg_list_example)]) (str ''pg_stats'')
     = Inr (JArr pg_list_example) \<and>
   list_all (\<lambda>pg. \<exists>kvs p st. pg = JObj kvs \<and>
      map_of kvs (str ''pgid'') = Some p \<and> map_of kvs (str ''state'') = Some st)
     pg_list_example \<and>
   fst (check_pg_state (scripted [prints 0 pg_dump_example]) (str ''1.1'') world0)
     = Inr (JStr (str ''active+remapped'')) \<and>
   fst (check_pg_state (scripted [prints 0 pg_dump_example]) (str ''7.7'') world0)
     = Inr (JArr [])"
proof -
  have h1: "fst (run_ceph_command (scripted [prints 0 pg_dump_example])
         (str ''ceph pg dump pgs'') False
         (log_at DEBUG ''Checking the PG state for PG ID'' world0))
     = Inr (JObj [(str ''pg_stats'', JArr pg_list_example)])"
    by (simp add: run_ceph_command_def exec_command_def Let_def scripted_def prints_def
        world0_def log_at_def pg_dump_example_not_space pg_dump_example_loads)
  have h2: "py_getitem (JObj [(str ''pg_stats'', JArr pg_list_example)]) (str ''pg_stats'')
     = Inr (JArr pg_list_example)"
    by simp
  have h3: "\<forall>pg \<in> set pg_list_example. \<exists>kvs p st. pg = JObj kvs \<and>
      map_of kvs (str ''pgid'') = Some p \<and> map_of kvs (str ''state'') = Some st"
    by (simp add: pg_list_example_def str_def)
  have r1: "fst (check_pg_state (scripted [prints 0 pg_dump_example]) (str ''1.1'') world0)
     = Inr (JStr (str ''active+remapped''))"
    using check_pg_state_result [OF h1 h2 h3, of "str ''1.1''"]
    by (simp add: pg_list_example_def str_def)
  have r2: "fst (check_pg_state (scripted [prints 0 pg_dump_example]) (str ''7.7'') world0)
     = Inr (JArr [])"
    using check_pg_state_result [OF h1 h2 h3, of "str ''7.7''"]
    by (simp add: pg_list_example_def str_def)
  from h1 h2 h3 r1 r2 show ?thesis unfolding list_all_iff by blast
qed

section \<open>\<open>detete_pool\<close>\<close>

text \<open>
  \<open>[x["name"] for x in v]\<close>: the \<open>name\<close> of every element, or the first exception.
\<close>

fun names_list :: "json list \<Rightarrow> error + json list" where
  "names_list [] = Inr []"
| "names_list (x # xs) =
     (case py_getitem x (str ''name'') of
        Inl e \<Rightarrow> Inl e
      | Inr n \<Rightarrow> (case names_list xs of Inl e \<Rightarrow> Inl e | Inr ns \<Rightarrow> Inr (n # ns)))"

definition names_of :: "json \<Rightarrow> error + json list" where
  "names_of v = (case py_iter v of Inl e \<Rightarrow> Inl e | Inr xs \<Rightarrow> names_list xs)"

text \<open>\<open>[ele["name"] for ele in existing_pools["pools"]]\<close>\<close>

definition pool_names :: "json \<Rightarrow> error + json list" where
  "pool_names existing_pools =
     (case py_getitem existing_pools (str ''pools'') of
        Inl e \<Rightarrow> Inl e
      | Inr ps \<Rightarrow> names_of ps)"

definition allow_delete_cmd :: pystr where
  "allow_delete_cmd = str ''ceph config set mon mon_allow_pool_delete true''"

definition delete_cmd :: "pystr \<Rightarrow> pystr" where
  "delete_cmd pool =
     str ''ceph osd pool delete '' @ pool @ str '' '' @ pool @
     str '' --yes-i-really-really-mean-it''"

text \<open>
  Lines 989 to 1015. The configuration is read and deletion of pools is allowed if
  no entry of that name is set; the pools are read, and for a pool that is not among
  them the answer is \<open>True\<close> at once. Otherwise the pool is deleted, the pools are
  read again, and the answer says whether the pool is gone.
\<close>

definition detete_pool :: "env \<Rightarrow> pystr \<Rightarrow> world \<Rightarrow> (error + bool) \<times> world" where
  "detete_pool E pool w =
     (case run_ceph_command E (str ''ceph config dump'') True w of
        (Inl e, w1) \<Rightarrow> (Inl e, w1)
      | (Inr config_dump, w1) \<Rightarrow>
     (case names_of config_dump of
        Inl e \<Rightarrow> (Inl e, w1)
      | Inr confs \<Rightarrow>
     (case (if JStr (str ''mon_allow_pool_delete'') \<notin> set confs
            then exec_command E Client allow_delete_cmd w1
            else (Inr [], w1)) of
        (Inl e, w2) \<Rightarrow> (Inl e, w2)
      | (Inr _, w2) \<Rightarrow>
     (case run_ceph_command E (str ''ceph df'') True w2 of
        (Inl e, w3) \<Rightarrow> (Inl e, w3)
      | (Inr existing_pools, w3) \<Rightarrow>
     (case pool_names existing_pools of
        Inl e \<Rightarrow> (Inl e, w3)
      | Inr pools \<Rightarrow>
          if JStr pool \<notin> set pools then
            (Inr True, log_at ERROR ''Pool does not exist on cluster, cannot delete'' w3)
          else
     (case exec_command E Client (delete_cmd pool) w3 of
        (Inl e, w4) \<Rightarrow> (Inl e, w4)
      | (Inr _, w4) \<Rightarrow>
     (case run_ceph_command E (str ''ceph df'') True w4 of
        (Inl e, w5) \<Rightarrow> (Inl e, w5)
      | (Inr existing_pools', w5) \<Rightarrow>
     (case pool_names existing_pools' of
        Inl e \<Rightarrow> (Inl e, w5)
      | Inr pools' \<Rightarrow>
          if JStr pool \<notin> set pools' then
            (Inr True, log_at INFO ''Pool deleted Successfully'' w5)
          else
            (Inr False, log_at ERROR ''Pool could not be deleted on cluster'' w5)))))))))"

lemma issued_exec_command:
  "issued (snd (exec_command E t cmd w)) = issued w @ [(t, cmd)]"
  by (simp add: exec_command_def Let_def)

lemma issued_run_ceph_command:
  "issued (snd (run_ceph_command E cmd ce w))
   = issued w @ [(if ce then Client else Node, cmd @ str '' -f json'')]"
  by (simp add: run_ceph_command_def exec_command_def Let_def log_at_def
      split: sum.splits)

lemma delete_cmd_not_json: "delete_cmd pool \<noteq> cmd @ str '' -f json''"
proof
  assume "delete_cmd pool = cmd @ str '' -f json''"
  then have "last (delete_cmd pool) = last (cmd @ str '' -f json'')" by simp
  then show False by (simp add: delete_cmd_def str_def)
qed

lemma delete_cmd_not_allow: "delete_cmd pool \<noteq> allow_delete_cmd"
proof
  assume "delete_cmd pool = allow_delete_cmd"
  then have "last (delete_cmd pool) = last allow_delete_cmd" by simp
  then show False by (simp add: delete_cmd_def allow_delete_cmd_def str_def)
qed

text \<open>
  One call on a cluster where the pool is absent: the configuration can be read,
  the command that allows deletion does not fail, and the pools can be read and do
  not hold the pool, whenever these commands are run.
\<close>

lemma detete_pool_absent_once:
  assumes cfg: "\<And>w'. \<exists>d ns. fst (run_ceph_command E (str ''ceph config dump'') True w') = Inr d \<and>
                    names_of d = Inr ns"
    and allow: "\<And>w'. \<exists>out. fst (exec_command E Client allow_delete_cmd w') = Inr out"
    and df: "\<And>w'. \<exists>d ps. fst (run_ceph_command E (str ''ceph df'') True w') = Inr d \<and>
                    pool_names d = Inr ps \<and> JStr pool \<notin> set ps"
  shows "fst (detete_pool E pool w) = Inr True \<and>
         (\<exists>new. issued (snd (detete_pool E pool w)) = issued w @ new \<and>
                (Client, delete_cmd pool) \<notin> set new)"
proof -
  obtain r1 w1 where c1: "run_ceph_command E (str ''ceph config dump'') True w = (r1, w1)"
    by (cases "run_ceph_command E (str ''ceph config dump'') True w")
  from cfg [of w] c1 obtain d ns where r1: "r1 = Inr d" and ns: "names_of d = Inr ns"
    by auto
  have i1: "issued w1 = issued w @ [(Client, str ''ceph config dump'' @ str '' -f json'')]"
    using issued_run_ceph_command [of E "str ''ceph config dump''" True w] c1 by simp
  define step2 where "step2 = (if JStr (str ''mon_allow_pool_delete'') \<notin> set ns
            then exec_command E Client allow_delete_cmd w1
            else (Inr [], w1))"
  obtain r2 w2 where c2: "step2 = (r2, w2)" by (cases step2)
  have r2: "\<exists>out. r2 = Inr out"
    using allow [of w1] c2 by (auto simp: step2_def split: if_splits)
  then obtain out2 where r2': "r2 = Inr out2" by blast
  have i2: "\<exists>new. issued w2 = issued w1 @ new \<and> (Client, delete_cmd pool) \<notin> set new"
  proof (cases "JStr (str ''mon_allow_pool_delete'') \<notin> set ns")
    case True
    then have "issued w2 = issued w1 @ [(Client, allow_delete_cmd)]"
      using c2 issued_exec_command [of E Client allow_delete_cmd w1]
      by (simp add: step2_def)
    then show ?thesis using delete_cmd_not_allow by simp
  next
    case False
    then have "w2 = w1" using c2 by (simp add: step2_def)
    then show ?thesis by simp
  qed
  obtain r3 w3 where c3: "run_ceph_command E (str ''ceph df'') True w2 = (r3, w3)"
    by (cases "run_ceph_command E (str ''ceph df'') True w2")
  from df [of w2] c3 obtain d3 ps where r3: "r3 = Inr d3" and ps: "pool_names d3 = Inr ps"
    and absent: "JStr pool \<notin> set ps"
    by auto
  have i3: "issued w3 = issued w2 @ [(Client, str ''ceph df'' @ str '' -f json'')]"
    using issued_run_ceph_command [of E "str ''ceph df''" True w2] c3 by simp
  have res: "detete_pool E pool w
        = (Inr True, log_at ERROR ''Pool does not exist on cluster, cannot delete'' w3)"
    using c1 r1 ns c2 [unfolded step2_def] r2' c3 r3 ps absent
    by (simp add: detete_pool_def)
  from i2 obtain new2 where n2: "issued w2 = issued w1 @ new2"
    and nd2: "(Client, delete_cmd pool) \<notin> set new2" by blast
  have "issued (snd (detete_pool E pool w))
        = issued w @ ([(Client, str ''ceph config dump'' @ str '' -f json'')] @ new2
                       @ [(Client, str ''ceph df'' @ str '' -f json'')])"
    using res i1 n2 i3 by (simp add: log_at_def)
  moreover have "(Client, delete_cmd pool)
        \<notin> set ([(Client, str ''ceph config dump'' @ str '' -f json'')] @ new2
                       @ [(Client, str ''ceph df'' @ str '' -f json'')])"
    using nd2 delete_cmd_not_json by auto
  ultimately show ?thesis using res by (metis fst_conv)
qed

text \<open>
  C7. On a cluster where the pool is absent (and the commands that \<open>detete_pool\<close>
  runs before its test can be run), \<open>detete_pool\<close> returns \<open>True\<close> and has not run the
  command that deletes the pool; called again, it returns \<open>True\<close> again, and still
  that command has not been run.
\<close>

theorem detete_pool_absent_idempotent:
  assumes cfg: "\<And>w'. \<exists>d ns. fst (run_ceph_command E (str ''ceph config dump'') True w') = Inr d \<and>
                    names_of d = Inr ns"
    and allow: "\<And>w'. \<exists>out. fst (exec_command E Client allow_delete_cmd w') = Inr out"
    and df: "\<And>w'. \<exists>d ps. fst (run_ceph_command E (str ''ceph df'') True w') = Inr d \<and>
                    pool_names d = Inr ps \<and> JStr pool \<notin> set ps"
  shows "fst (detete_pool E pool w) = Inr True \<and>
         fst (detete_pool E pool (snd (detete_pool E pool w))) = Inr True \<and>
         (\<exists>new. issued (snd (detete_pool E pool (snd (detete_pool E pool w)))) = issued w @ new \<and>
                (Client, delete_cmd pool) \<notin> set new)"
proof -
  let ?w1 = "snd (detete_pool E pool w)"
  from detete_pool_absent_once [OF cfg allow df, of w]
  obtain new1 where a: "fst (detete_pool E pool w) = Inr True"
    and n1: "issued ?w1 = issued w @ new1" and d1: "(Client, delete_cmd pool) \<notin> set new1"
    by blast
  from detete_pool_absent_once [OF cfg allow df, of ?w1]
  obtain new2 where b: "fst (detete_pool E pool ?w1) = Inr True"
    and n2: "issued (snd (detete_pool E pool ?w1)) = issued ?w1 @ new2"
    and d2: "(Client, delete_cmd pool) \<notin> set new2"
    by blast
  have "issued (snd (detete_pool E pool ?w1)) = issued w @ (new1 @ new2)"
    using n1 n2 by simp
  moreover have "(Client, delete_cmd pool) \<notin> set (new1 @ new2)"
    using d1 d2 by simp
  ultimately show ?thesis using a b by blast
qed
text \<open>
  A cluster that answers by the command alone: no configuration entries, one pool
  \<open>rbd\<close>, and nothing printed by any other command.
\<close>

definition answering :: "(pystr \<Rightarrow> response) \<Rightarrow> env" where
  "answering f =
     \<lparr>respond = (\<lambda>n t cmd. f cmd), str_lower = ascii_lower, py_float = example_float\<rparr>"

definition one_pool :: "pystr \<Rightarrow> response" where
  "one_pool cmd =
     (if cmd = str ''ceph config dump -f json'' then prints 0 ''[]''
      else if cmd = str ''ceph df -f json'' then prints 0 ''{\"pools\": [{\"name\": \"rbd\"}]}''
      else prints 0 [])"

lemma one_pool_config:
  "fst (run_ceph_command (answering one_pool) (str ''ceph config dump'') True w') = Inr (JArr [])"
  by (simp add: run_ceph_command_def exec_command_def Let_def answering_def one_pool_def
      prints_def isspace_def is_whitespace_def decode_simps)

lemma one_pool_df:
  "fst (run_ceph_command (answering one_pool) (str ''ceph df'') True w')
   = Inr (JObj [(str ''pools'', JArr [JObj [(str ''name'', JStr (str ''rbd''))]])])"
  by (simp add: run_ceph_command_def exec_command_def Let_def answering_def one_pool_def
      prints_def isspace_def is_whitespace_def decode_simps)

theorem detete_pool_absent_idempotent_witness:
  "(\<forall>w'. \<exists>d ns. fst (run_ceph_command (answering one_pool) (str ''ceph config dump'') True w')
               = Inr d \<and> names_of d = Inr ns) \<and>
   (\<forall>w'. \<exists>out. fst (exec_command (answering one_pool) Client allow_delete_cmd w') = Inr out) \<and>
   (\<forall>w'. \<exists>d ps. fst (run_ceph_command (answering one_pool) (str ''ceph df'') True w') = Inr d \<and>
               pool_names d = Inr ps \<and> JStr (str ''gone'') \<notin> set ps) \<and>
   fst (detete_pool (answering one_pool) (str ''gone'') world0) = Inr True \<and>
   fst (detete_pool (answering one_pool) (str ''gone'')
          (snd (detete_pool (answering one_pool) (str ''gone'') world0))) = Inr True \<and>
   (\<exists>new. issued (snd (detete_pool (answering one_pool) (str ''gone'')
                     (snd (detete_pool (answering one_pool) (str ''gone'') world0))))
          = issued world0 @ new \<and>
          (Client, delete_cmd (str ''gone'')) \<notin> set new)"
proof -
  have cfg: "\<And>w'. \<exists>d ns. fst (run_ceph_command (answering one_pool) (str ''ceph config dump'')
                True w') = Inr d \<and> names_of d = Inr ns"
    by (simp add: one_pool_config names_of_def)
  have allow: "\<And>w'. \<exists>out. fst (exec_command (answering one_pool) Client allow_delete_cmd w')
                = Inr out"
    by (simp add: exec_command_def Let_def answering_def one_pool_def prints_def
        allow_delete_cmd_def str_def)
  have df: "\<And>w'. \<exists>d ps. fst (run_ceph_command (answering one_pool) (str ''ceph df'') True w')
                = Inr d \<and> pool_names d = Inr ps \<and> JStr (str ''gone'') \<notin> set ps"
  proof -
    fix w'
    have "pool_names (JObj [(str ''pools'', JArr [JObj [(str ''name'', JStr (str ''rbd''))]])])
          = Inr [JStr (str ''rbd'')]"
      by (simp add: pool_names_def names_of_def)
    moreover have "JStr (str ''gone'') \<notin> set [JStr (str ''rbd'')]"
      by (simp add: str_def)
    ultimately show "\<exists>d ps. fst (run_ceph_command (answering one_pool) (str ''ceph df'') True w')
                = Inr d \<and> pool_names d = Inr ps \<and> JStr (str ''gone'') \<notin> set ps"
      using one_pool_df [of w'] by blast
  qed
  show ?thesis
    using cfg allow df detete_pool_absent_idempotent [OF cfg allow df, of world0]
    by blast
qed

section \<open>\<open>check_fragmentation_score\<close>\<close>

text \<open>
  Lines 1836 to 1867. \<open>osd_id\<close> is the text that the f-string puts into the command.
  The score is read from \<open>fragmentation_rating\<close>, made a float, and compared with the
  floats \<open>0.9\<close> and \<open>1.0\<close>. The double that the literal \<open>0.9\<close> denotes is
  \<open>8106479329266893 / 2^53\<close>.
\<close>

definition get_fragmentation_score :: "env \<Rightarrow> pystr \<Rightarrow> world \<Rightarrow> (error + json) \<times> world" where
  "get_fragmentation_score E osd_id w =
     (case run_ceph_command E
             (str ''ceph tell osd.'' @ osd_id @ str '' bluestore allocator score block'')
             False w of
        (Inl e, w1) \<Rightarrow> (Inl e, w1)
      | (Inr d, w1) \<Rightarrow> (py_getitem d (str ''fragmentation_rating''), w1))"

definition float_0_9 :: pyfloat where
  "float_0_9 = Finite (8106479329266893 / 9007199254740992)"

definition float_1_0 :: pyfloat where
  "float_1_0 = Finite 1"

definition check_fragmentation_score :: "env \<Rightarrow> pystr \<Rightarrow> world \<Rightarrow> (error + bool) \<times> world" where
  "check_fragmentation_score E osd_id w =
     (case get_fragmentation_score E osd_id
             (log_at INFO ''Checking the Fragmentation score for OSD'' w) of
        (Inl e, w1) \<Rightarrow> (Inl e, w1)
      | (Inr frag_score, w1) \<Rightarrow>
          (let w2 = log_at INFO ''Fragmentation score for the OSD'' w1
           in case py_float E frag_score of
                Inl e \<Rightarrow> (Inl e, w2)
              | Inr x \<Rightarrow>
                  if float_less float_0_9 x \<and> float_less x float_1_0
                  then (Inr False, log_at ERROR ''Fragmentation on osd is dangerously high'' w2)
                  else (Inr True, w2)))"

text \<open>
  C10. When the score has been read and is the float \<open>s\<close>, \<open>check_fragmentation_score\<close>
  returns \<open>False\<close> if and only if \<open>0.9 < s < 1.0\<close>, and \<open>True\<close> otherwise; so it returns
  \<open>True\<close> for every \<open>s\<close> that is not less than \<open>1.0\<close>, infinity included.
\<close>

theorem check_fragmentation_score_iff:
  assumes "fst (get_fragmentation_score E osd_id
                 (log_at INFO ''Checking the Fragmentation score for OSD'' w)) = Inr v"
    and "py_float E v = Inr s"
  shows "(fst (check_fragmentation_score E osd_id w) = Inr False
          \<longleftrightarrow> float_less float_0_9 s \<and> float_less s float_1_0) \<and>
         (fst (check_fragmentation_score E osd_id w) = Inr True
          \<longleftrightarrow> \<not> (float_less float_0_9 s \<and> float_less s float_1_0)) \<and>
         (s = PosInf \<or> (\<exists>x. s = Finite x \<and> 1 \<le> x)
          \<longrightarrow> fst (check_fragmentation_score E osd_id w) = Inr True)"
proof -
  obtain r w1 where g: "get_fragmentation_score E osd_id
                 (log_at INFO ''Checking the Fragmentation score for OSD'' w) = (r, w1)"
    by (cases "get_fragmentation_score E osd_id
                 (log_at INFO ''Checking the Fragmentation score for OSD'' w)")
  with assms(1) have r: "r = Inr v" by simp
  have res: "fst (check_fragmentation_score E osd_id w)
             = Inr (\<not> (float_less float_0_9 s \<and> float_less s float_1_0))"
    by (simp add: check_fragmentation_score_def g r assms(2) Let_def)
  have "s = PosInf \<or> (\<exists>x. s = Finite x \<and> 1 \<le> x) \<Longrightarrow> \<not> float_less s float_1_0"
    by (auto simp: float_1_0_def)
  with res show ?thesis by auto
qed

definition frag_example :: "pystr \<Rightarrow> response" where
  "frag_example cmd = prints 0 ''{\"fragmentation_rating\": 0.9375}''"

theorem check_fragmentation_score_iff_witness:
  "fst (get_fragmentation_score (answering frag_example) (str ''3'')
         (log_at INFO ''Checking the Fragmentation score for OSD'' world0))
     = Inr (JFloat (str ''0.9375'')) \<and>
   py_float (answering frag_example) (JFloat (str ''0.9375'')) = Inr (Finite (15 / 16)) \<and>
   float_less float_0_9 (Finite (15 / 16)) \<and> float_less (Finite (15 / 16)) float_1_0 \<and>
   fst (check_fragmentation_score (answering frag_example) (str ''3'') world0) = Inr False"
proof -
  have h1: "fst (get_fragmentation_score (answering frag_example) (str ''3'')
         (log_at INFO ''Checking the Fragmentation score for OSD'' world0))
     = Inr (JFloat (str ''0.9375''))"
    by (simp add: get_fragmentation_score_def run_ceph_command_def exec_command_def Let_def
        answering_def frag_example_def prints_def isspace_def is_whitespace_def decode_simps)
  have h2: "py_float (answering frag_example) (JFloat (str ''0.9375'')) = Inr (Finite (15 / 16))"
    by (simp add: answering_def example_float_def)
  have h3: "float_less float_0_9 (Finite (15 / 16)) \<and> float_less (Finite (15 / 16)) float_1_0"
    by (simp add: float_0_9_def float_1_0_def)
  show ?thesis
    using h1 h2 h3 check_fragmentation_score_iff [OF h1 h2]
    by simp
qed

section \<open>Operations that wait\<close>

subsection \<open>\<open>check_osd_op_queue\<close>, \<open>change_recovery_threads\<close>\<close>

text \<open>Lines 1380 to 1389.\<close>

definition check_osd_op_queue :: "env \<Rightarrow> pystr \<Rightarrow> world \<Rightarrow> (error + bool) \<times> world" where
  "check_osd_op_queue E qos w =
     (case exec_command E Node (str ''ceph config get osd osd_op_queue'') w of
        (Inl e, w1) \<Rightarrow> (Inl e, w1)
      | (Inr current_qos, w1) \<Rightarrow>
          (Inr (str_contains (str_lower E qos) (str_lower E current_qos)), w1))"

text \<open>
  Lines 534 to 557. \<open>config\<close> maps a key to the text of its value; a key without
  value gets \<open>8\<close>. The two keys of \<open>cfg_map\<close> are visited in the order they were
  written.
\<close>

definition recovery_command :: "(pystr \<times> pystr) list \<Rightarrow> pystr \<Rightarrow> pystr \<Rightarrow> pystr" where
  "recovery_command config action key =
     (let base = str ''ceph config '' @ action @ str '' osd '' @ key
      in if action = str ''set''
         then base @ str '' '' @ (case map_of config key of None \<Rightarrow> str ''8'' | Some v \<Rightarrow> v)
         else base)"

definition change_recovery_threads ::
  "env \<Rightarrow> (pystr \<times> pystr) list \<Rightarrow> pystr \<Rightarrow> world \<Rightarrow> (error + unit) \<times> world" where
  "change_recovery_threads E config action w =
     (case check_osd_op_queue E (str ''mclock'') w of
        (Inl e, w1) \<Rightarrow> (Inl e, w1)
      | (Inr mclock, w1) \<Rightarrow>
     (case (if mclock
            then exec_command E Node
                   (str ''ceph config set osd osd_mclock_override_recovery_settings true'') w1
            else (Inr [], w1)) of
        (Inl e, w2) \<Rightarrow> (Inl e, w2)
      | (Inr _, w2) \<Rightarrow>
     (case exec_command E Node
             (recovery_command config action (str ''osd_max_backfills'')) w2 of
        (Inl e, w3) \<Rightarrow> (Inl e, w3)
      | (Inr _, w3) \<Rightarrow>
     (case exec_command E Node
             (recovery_command config action (str ''osd_recovery_max_active'')) w3 of
        (Inl e, w4) \<Rightarrow> (Inl e, w4)
      | (Inr _, w4) \<Rightarrow> (Inr (), w4)))))"

subsection \<open>\<open>verify_reweight\<close>\<close>

text \<open>
  Lines 945 to 954: the loop over \<open>status_report["num_pg_by_state"]\<close> assigns
  \<open>flag\<close> once for every entry, so the last entry decides; with no entry \<open>flag\<close>
  keeps what it had. \<open>None\<close> is the local variable before its first assignment.
\<close>

definition reweight_flag :: "pystr \<Rightarrow> bool" where
  "reweight_flag state =
     (\<not> list_ex (\<lambda>key. key = str ''remapped'' \<or> key = str ''backfilling'') (split 0x2B state))"

fun flag_loop :: "json list \<Rightarrow> bool option \<Rightarrow> error + bool option" where
  "flag_loop [] flag = Inr flag"
| "flag_loop (entry # entries) flag =
     (case py_getitem entry (str ''state'') of
        Inl e \<Rightarrow> Inl e
      | Inr st \<Rightarrow>
          (case py_str_method st of
             Inl e \<Rightarrow> Inl e
           | Inr s \<Rightarrow> flag_loop entries (Some (reweight_flag s))))"

definition pg_states :: "json \<Rightarrow> error + json list" where
  "pg_states status_report =
     (case py_getitem status_report (str ''num_pg_by_state'') of
        Inl e \<Rightarrow> Inl e
      | Inr l \<Rightarrow> py_iter l)"

text \<open>
  Lines 959 to 963: the message that is logged before the sleep reads
  \<open>status_report['health']['checks'].keys()\<close>, which can raise.
\<close>

definition health_checks :: "json \<Rightarrow> error + pystr list" where
  "health_checks status_report =
     (case py_getitem status_report (str ''health'') of
        Inl e \<Rightarrow> Inl e
      | Inr h \<Rightarrow>
          (case py_getitem h (str ''checks'') of
             Inl e \<Rightarrow> Inl e
           | Inr c \<Rightarrow> py_keys c))"

lemma clock_exec_command:
  "clock (snd (exec_command E t cmd w)) = clock w + latency (respond E (ncalls w) t cmd)"
  by (simp add: exec_command_def Let_def)

lemma run_ceph_command_clock_mono:
  "(r, w1) = run_ceph_command E cmd ce w \<Longrightarrow> clock w \<le> clock w1"
  by (auto simp: run_ceph_command_def exec_command_def Let_def log_at_def
      split: sum.splits if_splits)

lemma clock_run_ceph_command:
  "clock (snd (run_ceph_command E cmd ce w))
   = clock w + latency (respond E (ncalls w) (if ce then Client else Node)
                          (cmd @ str '' -f json''))"
  by (simp add: run_ceph_command_def exec_command_def Let_def log_at_def split: sum.splits)

text \<open>
  Lines 942 to 964: the loop, from its test on. It ends with the value of \<open>flag\<close>:
  at the \<open>break\<close>, or when the clock has reached \<open>end_time\<close>.
\<close>

function verify_reweight_loop ::
  "env \<Rightarrow> nat \<Rightarrow> bool option \<Rightarrow> world \<Rightarrow> (error + bool option) \<times> world" where
  "verify_reweight_loop E end_time flag w =
     (if end_time > clock w then
        (case run_ceph_command E (str ''ceph report'') False w of
           (Inl e, w1) \<Rightarrow> (Inl e, w1)
         | (Inr status_report, w1) \<Rightarrow>
        (case pg_states status_report of
           Inl e \<Rightarrow> (Inl e, w1)
         | Inr entries \<Rightarrow>
        (case flag_loop entries flag of
           Inl e \<Rightarrow> (Inl e, w1)
         | Inr None \<Rightarrow> (Inl UnboundLocalError, w1)
         | Inr (Some f) \<Rightarrow>
             if f then
               (Inr (Some True),
                log_at INFO ''The recovery and back-filling of the OSD is completed'' w1)
             else
               (case health_checks status_report of
                  Inl e \<Rightarrow> (Inl e, w1)
                | Inr _ \<Rightarrow>
                    verify_reweight_loop E end_time (Some False)
                      (sleep 60 (log_at INFO ''Waiting for active + clean'' w1))))))
      else (Inr flag, w))"
  by pat_completeness auto
termination
proof (relation "measure (\<lambda>(E, end_time, flag, w). end_time - clock w)", goal_cases)
  case 1
  show ?case by simp
next
  case 2
  then show ?case
    by (auto simp: sleep_def log_at_def dest: run_ceph_command_clock_mono)
qed

declare verify_reweight_loop.simps [simp del]

text \<open>
  Lines 931 to 987. The comparison of the utilisation after the loop (lines 972 to
  987) is the parameter \<open>check_utilization\<close>; \<open>affected_osds\<close> and \<open>osd_info\<close> are
  used there only.
\<close>

definition verify_reweight ::
  "env \<Rightarrow> (world \<Rightarrow> (error + bool) \<times> world) \<Rightarrow> world \<Rightarrow> (error + bool) \<times> world" where
  "verify_reweight E check_utilization w =
     (case change_recovery_threads E [] (str ''set'') w of
        (Inl e, w1) \<Rightarrow> (Inl e, w1)
      | (Inr _, w1) \<Rightarrow>
     (case verify_reweight_loop E (clock w1 + 1200 * 1000000) None w1 of
        (Inl e, w2) \<Rightarrow> (Inl e, w2)
      | (Inr flag, w2) \<Rightarrow>
     (case change_recovery_threads E [] (str ''rm'') w2 of
        (Inl e, w3) \<Rightarrow> (Inl e, w3)
      | (Inr _, w3) \<Rightarrow>
     (case flag of
        None \<Rightarrow> (Inl UnboundLocalError, w3)
      | Some f \<Rightarrow>
          if \<not> f then
            (Inr False,
             log_at ERROR ''The cluster did not reach active + Clean After re-balancing by capacity''
               w3)
          else check_utilization w3))))"
subsection \<open>\<open>run_pool_sanity_check\<close>\<close>

text \<open>
  Lines 595 to 641, for the calls \<open>run_scrub()\<close> and \<open>run_deep_scrub()\<close> without
  keyword arguments: every \<open>kwargs.get\<close> is \<open>None\<close> and all OSDs are scrubbed.
\<close>

definition run_scrub :: "env \<Rightarrow> world \<Rightarrow> (error + unit) \<times> world" where
  "run_scrub E w =
     (case exec_command E Client (str ''ceph osd scrub all'') w of
        (Inl e, w1) \<Rightarrow> (Inl e, w1)
      | (Inr _, w1) \<Rightarrow> (Inr (), w1))"

definition run_deep_scrub :: "env \<Rightarrow> world \<Rightarrow> (error + unit) \<times> world" where
  "run_deep_scrub E w =
     (case exec_command E Client (str ''ceph osd deep-scrub all'') w of
        (Inl e, w1) \<Rightarrow> (Inl e, w1)
      | (Inr _, w1) \<Rightarrow> (Inr (), w1))"

definition health_warns :: "pystr list" where
  "health_warns =
     [str ''PG_AVAILABILITY'', str ''PG_DEGRADED'', str ''PG_RECOVERY_FULL'',
      str ''TOO_FEW_OSDS'', str ''PG_BACKFILL_FULL'', str ''PG_DAMAGED'',
      str ''OSD_SCRUB_ERRORS'', str ''OSD_TOO_MANY_REPAIRS'', str ''CACHE_POOL_NEAR_FULL'',
      str ''SMALLER_PGP_NUM'', str ''MANY_OBJECTS_PER_PG'', str ''OBJECT_MISPLACED'',
      str ''OBJECT_UNFOUND'', str ''SLOW_OPS'', str ''RECENT_CRASH'']"

text \<open>
  Lines 1610 to 1635: \<open>flag\<close> is true iff no key of
  \<open>status_report["health"]["checks"]\<close> is one of the warnings.
\<close>

definition sanity_flag :: "json \<Rightarrow> error + bool" where
  "sanity_flag status_report =
     (case health_checks status_report of
        Inl e \<Rightarrow> Inl e
      | Inr keys \<Rightarrow> Inr (\<not> list_ex (\<lambda>key. key \<in> set health_warns) keys))"

text \<open>Lines 1608 to 1643: the loop, from its test on; it ends with \<open>flag\<close>.\<close>

function run_pool_sanity_loop ::
  "env \<Rightarrow> nat \<Rightarrow> bool \<Rightarrow> world \<Rightarrow> (error + bool) \<times> world" where
  "run_pool_sanity_loop E end_time flag w =
     (if end_time > clock w then
        (case run_ceph_command E (str ''ceph report'') True w of
           (Inl e, w1) \<Rightarrow> (Inl e, w1)
         | (Inr status_report, w1) \<Rightarrow>
        (case sanity_flag status_report of
           Inl e \<Rightarrow> (Inl e, w1)
         | Inr f \<Rightarrow>
             if f then (Inr True, log_at INFO ''No warnings on the cluster'' w1)
             else
               run_pool_sanity_loop E end_time False
                 (sleep 10 (log_at INFO ''Observing a health warning on cluster'' w1))))
      else (Inr flag, w))"
  by pat_completeness auto
termination
proof (relation "measure (\<lambda>(E, end_time, flag, w). end_time - clock w)", goal_cases)
  case 1
  show ?case by simp
next
  case 2
  then show ?case
    by (auto simp: sleep_def log_at_def dest: run_ceph_command_clock_mono)
qed

declare run_pool_sanity_loop.simps [simp del]

text \<open>Lines 1593 to 1652.\<close>

definition run_pool_sanity_check :: "env \<Rightarrow> world \<Rightarrow> (error + bool) \<times> world" where
  "run_pool_sanity_check E w =
     (case run_scrub E w of
        (Inl e, w1) \<Rightarrow> (Inl e, w1)
      | (Inr _, w1) \<Rightarrow>
     (case run_deep_scrub E w1 of
        (Inl e, w2) \<Rightarrow> (Inl e, w2)
      | (Inr _, w2) \<Rightarrow>
     (let w3 = sleep 10 w2
      in case run_pool_sanity_loop E (clock w3 + 600 * 1000000) False w3 of
           (Inl e, w4) \<Rightarrow> (Inl e, w4)
         | (Inr flag, w4) \<Rightarrow>
             if \<not> flag then
               (Inr False,
                log_at ERROR
                  ''Health warning generated on cluster and not cleared post waiting of 600 seconds''
                  w4)
             else (Inr True, log_at INFO ''Completed check on the cluster. Pass!'' w4))))"

subsection \<open>\<open>host_maintenance_enter\<close>\<close>

text \<open>
  Lines 1739 to 1756. \<open>status\<close> is \<open>None\<close> or a string; the empty string counts as
  false.
\<close>

definition check_host_status ::
  "env \<Rightarrow> pystr \<Rightarrow> pystr option \<Rightarrow> world \<Rightarrow> (error + bool) \<times> world" where
  "check_host_status E hostname status w =
     (case exec_command E Client
             (str ''ceph orch host ls --host_pattern '' @ hostname @ str '' -f json'') w of
        (Inl e, w1) \<Rightarrow> (Inl e, w1)
      | (Inr out, w1) \<Rightarrow>
     (case json_loads out of
        Inl e \<Rightarrow> (Inl e, w1)
      | Inr hosts \<Rightarrow>
     (case py_getitem0 hosts of
        Inl e \<Rightarrow> (Inl e, w1)
      | Inr host \<Rightarrow>
     (case py_getitem host (str ''status'') of
        Inl e \<Rightarrow> (Inl e, w1)
      | Inr st \<Rightarrow>
     (case py_str_method st of
        Inl e \<Rightarrow> (Inl e, w1)
      | Inr s \<Rightarrow>
          (let host_status = str_lower E s
           in if (case status of None \<Rightarrow> False
                  | Some x \<Rightarrow> x \<noteq> [] \<and> str_contains (str_lower E x) host_status)
              then (Inr True, w1)
              else if str_contains (str ''offline'') host_status then (Inr False, w1)
              else (Inr True, w1)))))))"

text \<open>
  Lines 303 to 322: the loop, from its test on. It ends with \<open>True\<close> or \<open>False\<close>
  where the code returns them, and with \<open>None\<close> where the loop ends and the function
  returns nothing.
\<close>

definition enter_cmd :: "pystr \<Rightarrow> pystr" where
  "enter_cmd hostname = str ''ceph orch host maintenance enter '' @ hostname @ str '' --force''"

function host_maintenance_enter_loop ::
  "env \<Rightarrow> pystr \<Rightarrow> int \<Rightarrow> int \<Rightarrow> world \<Rightarrow> (error + bool option) \<times> world" where
  "host_maintenance_enter_loop E hostname retry iteration w =
     (if iteration \<le> retry then
        (case exec_command E Client (enter_cmd hostname) w of
           (Inl e, w1) \<Rightarrow> (Inl e, w1)
         | (Inr out, w1) \<Rightarrow>
        (case check_host_status E hostname (Some (str ''maintenance''))
                (sleep 20 (log_at DEBUG ''o/p of maintenance enter cmd'' w1)) of
           (Inl e, w2) \<Rightarrow> (Inl e, w2)
         | (Inr ok, w2) \<Rightarrow>
             if \<not> ok then
               (let w3 = sleep 15
                           (log_at ERROR ''Host not in maintenance mode. Retrying again in 15 seconds''
                              w2)
                in if iteration + 1 = retry then (Inr (Some False), w3)
                   else host_maintenance_enter_loop E hostname retry (iteration + 1) w3)
             else
               (Inr (Some True),
                log_at INFO ''Added host into maintenance mode on the cluster'' w2)))
      else (Inr None, w))"
  by pat_completeness auto
termination
  by (relation "measure (\<lambda>(E, hostname, retry, iteration, w). nat (retry + 1 - iteration))")
    auto

declare host_maintenance_enter_loop.simps [simp del]

definition host_maintenance_enter ::
  "env \<Rightarrow> pystr \<Rightarrow> int \<Rightarrow> world \<Rightarrow> (error + bool option) \<times> world" where
  "host_maintenance_enter E hostname retry w =
     host_maintenance_enter_loop E hostname retry 0
       (log_at DEBUG ''Passed host to be added into maintenance mode'' w)"

section \<open>Properties of the operations that wait\<close>

text \<open>
  The document that \<open>run_ceph_command\<close> returns for a command depends on the
  cluster and on how many commands have been run before; so does the time the
  command takes.
\<close>

definition fetched :: "env \<Rightarrow> bool \<Rightarrow> pystr \<Rightarrow> nat \<Rightarrow> error + json" where
  "fetched E ce cmd n = fst (run_ceph_command E cmd ce (world0\<lparr>ncalls := n\<rparr>))"

definition fetch_latency :: "env \<Rightarrow> bool \<Rightarrow> pystr \<Rightarrow> nat \<Rightarrow> nat" where
  "fetch_latency E ce cmd n =
     latency (respond E n (if ce then Client else Node) (cmd @ str '' -f json''))"

lemma fst_run_ceph_command:
  "fst (run_ceph_command E cmd ce w) = fetched E ce cmd (ncalls w)"
  by (simp add: fetched_def run_ceph_command_def exec_command_def Let_def world0_def
      split: sum.splits)

lemma clock_run_ceph_command':
  "clock (snd (run_ceph_command E cmd ce w)) = clock w + fetch_latency E ce cmd (ncalls w)"
  by (simp add: clock_run_ceph_command fetch_latency_def)

lemma ncalls_run_ceph_command:
  "ncalls (snd (run_ceph_command E cmd ce w)) = Suc (ncalls w)"
  by (simp add: run_ceph_command_def exec_command_def Let_def log_at_def split: sum.splits)

lemma sleeps_run_ceph_command:
  "sleeps (snd (run_ceph_command E cmd ce w)) = sleeps w"
  by (simp add: run_ceph_command_def exec_command_def Let_def log_at_def split: sum.splits)

lemma run_ceph_command_eq:
  "run_ceph_command E cmd ce w = (fetched E ce cmd (ncalls w), snd (run_ceph_command E cmd ce w))"
  using fst_run_ceph_command [of E cmd ce w] by (simp add: prod_eq_iff)

subsection \<open>The loop of \<open>verify_reweight\<close>\<close>

text \<open>What the loop over the entries makes of a state when \<open>flag\<close> is not yet bound.\<close>

definition reweight_pred :: "json \<Rightarrow> error + bool option" where
  "reweight_pred S =
     (case pg_states S of Inl e \<Rightarrow> Inl e | Inr entries \<Rightarrow> flag_loop entries None)"

lemma flag_loop_bound:
  "flag_loop entries None = Inr (Some b) \<Longrightarrow> flag_loop entries flag = Inr (Some b)"
proof (induction entries arbitrary: flag)
  case Nil
  then show ?case by simp
next
  case (Cons entry entries)
  then show ?case
    by (cases entries) (auto split: sum.splits)
qed

lemma reweight_predD:
  assumes "reweight_pred S = Inr (Some b)"
  obtains entries where "pg_states S = Inr entries" and "flag_loop entries flag = Inr (Some b)"
  using assms flag_loop_bound [of _ b flag]
  by (auto simp: reweight_pred_def split: sum.splits)

abbreviation after_report :: "env \<Rightarrow> world \<Rightarrow> world" where
  "after_report E w \<equiv> snd (run_ceph_command E (str ''ceph report'') False w)"

lemma verify_reweight_loop_true:
  assumes "clock w < end_time"
    and "fetched E False (str ''ceph report'') (ncalls w) = Inr S"
    and "reweight_pred S = Inr (Some True)"
  shows "verify_reweight_loop E end_time flag w =
         (Inr (Some True),
          log_at INFO ''The recovery and back-filling of the OSD is completed''
            (after_report E w))"
proof -
  from assms(3) obtain entries where "pg_states S = Inr entries"
    and "flag_loop entries flag = Inr (Some True)"
    by (rule reweight_predD)
  with assms(1,2) show ?thesis
    by (subst verify_reweight_loop.simps, subst run_ceph_command_eq) simp
qed

lemma verify_reweight_loop_false:
  assumes "clock w < end_time"
    and "fetched E False (str ''ceph report'') (ncalls w) = Inr S"
    and "reweight_pred S = Inr (Some False)"
    and "health_checks S = Inr ks"
  shows "verify_reweight_loop E end_time flag w =
         verify_reweight_loop E end_time (Some False)
           (sleep 60 (log_at INFO ''Waiting for active + clean'' (after_report E w)))"
proof -
  from assms(3) obtain entries where "pg_states S = Inr entries"
    and "flag_loop entries flag = Inr (Some False)"
    by (rule reweight_predD)
  with assms(1,2,4) show ?thesis
    by (subst verify_reweight_loop.simps, subst run_ceph_command_eq) simp
qed

text \<open>
  The loop of \<open>verify_reweight\<close> when the predicate is false of the first \<open>k\<close>
  states fetched and true of the next one, and the last of these fetches starts
  before the deadline.
\<close>

lemma verify_reweight_loop_succeeds:
  assumes "\<forall>i\<le>k. fetched E False (str ''ceph report'') (ncalls w + i) = Inr (S i)"
    and "\<forall>i<k. reweight_pred (S i) = Inr (Some False) \<and> (\<exists>ks. health_checks (S i) = Inr ks)"
    and "reweight_pred (S k) = Inr (Some True)"
    and "clock w + (\<Sum>i<k. fetch_latency E False (str ''ceph report'') (ncalls w + i) + 60000000)
         < end_time"
  shows "fst (verify_reweight_loop E end_time flag w) = Inr (Some True) \<and>
         ncalls (snd (verify_reweight_loop E end_time flag w)) = ncalls w + Suc k \<and>
         sleeps (snd (verify_reweight_loop E end_time flag w)) = sleeps w @ replicate k 60 \<and>
         clock (snd (verify_reweight_loop E end_time flag w))
         = clock w + (\<Sum>i<k. fetch_latency E False (str ''ceph report'') (ncalls w + i) + 60000000)
           + fetch_latency E False (str ''ceph report'') (ncalls w + k)"
  using assms
proof (induction k arbitrary: w flag S)
  case 0
  then have "clock w < end_time"
    and "fetched E False (str ''ceph report'') (ncalls w) = Inr (S 0)"
    and "reweight_pred (S 0) = Inr (Some True)"
    by simp_all
  then show ?case
    by (simp add: verify_reweight_loop_true log_at_def ncalls_run_ceph_command
        sleeps_run_ceph_command clock_run_ceph_command')
next
  case (Suc k)
  let ?g = "\<lambda>i. fetch_latency E False (str ''ceph report'') (ncalls w + i) + 60000000"
  let ?w2 = "sleep 60 (log_at INFO ''Waiting for active + clean'' (after_report E w))"
  have sum: "(\<Sum>i<Suc k. ?g i) = ?g 0 + (\<Sum>i<k. ?g (Suc i))"
    by (rule sum.lessThan_Suc_shift)
  have start: "clock w < end_time"
    using Suc.prems(4) by simp
  have f0: "fetched E False (str ''ceph report'') (ncalls w) = Inr (S 0)"
    using Suc.prems(1) by force
  from Suc.prems(2) obtain ks where p0: "reweight_pred (S 0) = Inr (Some False)"
    and h0: "health_checks (S 0) = Inr ks"
    by force
  have step: "verify_reweight_loop E end_time flag w
              = verify_reweight_loop E end_time (Some False) ?w2"
    using start f0 p0 h0 by (rule verify_reweight_loop_false)
  have n2: "ncalls ?w2 = Suc (ncalls w)"
    by (simp add: sleep_def log_at_def ncalls_run_ceph_command)
  have c2: "clock ?w2 = clock w + ?g 0"
    by (simp add: sleep_def log_at_def clock_run_ceph_command')
  have s2: "sleeps ?w2 = sleeps w @ [60]"
    by (simp add: sleep_def log_at_def sleeps_run_ceph_command)
  have a1: "\<forall>i\<le>k. fetched E False (str ''ceph report'') (ncalls ?w2 + i) = Inr (S (Suc i))"
    using Suc.prems(1) n2 by auto
  have a2: "\<forall>i<k. reweight_pred (S (Suc i)) = Inr (Some False) \<and>
              (\<exists>ks. health_checks (S (Suc i)) = Inr ks)"
    using Suc.prems(2) by auto
  have a3: "reweight_pred (S (Suc k)) = Inr (Some True)"
    using Suc.prems(3) .
  have shift: "(\<Sum>i<k. fetch_latency E False (str ''ceph report'') (ncalls ?w2 + i) + 60000000)
               = (\<Sum>i<k. ?g (Suc i))"
    using n2 by simp
  have a4: "clock ?w2 + (\<Sum>i<k. fetch_latency E False (str ''ceph report'') (ncalls ?w2 + i)
              + 60000000) < end_time"
    using Suc.prems(4) c2 sum shift by simp
  note ih = Suc.IH [of ?w2 "\<lambda>i. S (Suc i)" "Some False", OF a1 a2 a3 a4]
  have r1: "sleeps w @ [60] @ replicate k 60 = sleeps w @ replicate (Suc k) 60"
    by simp
  show ?case
    unfolding step
    using ih n2 c2 s2 sum shift by simp
qed
text \<open>
  Two reports: one with a placement group that is still remapped and a health
  warning, one with all placement groups clean and no warning.
\<close>

definition report_busy :: string where
  "report_busy =
     ''{\"num_pg_by_state\": [{\"state\": \"active+clean\"}, {\"state\": \"active+remapped\"}], \"health\": {\"checks\": {\"PG_DEGRADED\": {}}}}''"

definition report_clean :: string where
  "report_clean =
     ''{\"num_pg_by_state\": [{\"state\": \"active+clean\"}], \"health\": {\"checks\": {}}}''"

definition doc_busy :: json where
  "doc_busy =
     JObj [(str ''num_pg_by_state'',
            JArr [JObj [(str ''state'', JStr (str ''active+clean''))],
                  JObj [(str ''state'', JStr (str ''active+remapped''))]]),
           (str ''health'', JObj [(str ''checks'', JObj [(str ''PG_DEGRADED'', JObj [])])])]"

definition doc_clean :: json where
  "doc_clean =
     JObj [(str ''num_pg_by_state'', JArr [JObj [(str ''state'', JStr (str ''active+clean''))]]),
           (str ''health'', JObj [(str ''checks'', JObj [])])]"

lemma report_busy_loads: "json_loads (str report_busy) = Inr doc_busy"
  by (simp add: report_busy_def doc_busy_def decode_simps)

lemma report_clean_loads: "json_loads (str report_clean) = Inr doc_clean"
  by (simp add: report_clean_def doc_clean_def decode_simps)

lemma report_busy_not_space: "\<not> isspace (str report_busy)"
  by (simp add: report_busy_def isspace_def is_whitespace_def str_def)

lemma report_clean_not_space: "\<not> isspace (str report_clean)"
  by (simp add: report_clean_def isspace_def is_whitespace_def str_def)

lemma reweight_pred_busy: "reweight_pred doc_busy = Inr (Some False)"
  by (simp add: reweight_pred_def pg_states_def doc_busy_def reweight_flag_def split_def
      str_def)

lemma reweight_pred_clean: "reweight_pred doc_clean = Inr (Some True)"
  by (simp add: reweight_pred_def pg_states_def doc_clean_def reweight_flag_def split_def
      str_def)

lemma health_checks_busy: "health_checks doc_busy = Inr [str ''PG_DEGRADED'']"
  by (simp add: health_checks_def doc_busy_def str_def)

lemma health_checks_clean: "health_checks doc_clean = Inr []"
  by (simp add: health_checks_def doc_clean_def str_def)

lemma fetched_scripted:
  assumes "n < length rs" and "outcome (rs ! n) = Inr out" and "\<not> isspace out"
  shows "fetched (scripted rs) ce cmd n = json_loads out"
  using assms
  by (simp add: fetched_def run_ceph_command_def exec_command_def Let_def scripted_def
      world0_def)

subsection \<open>The loop of \<open>host_maintenance_enter\<close>\<close>

text \<open>
  What \<open>check_host_status\<close> answers for the status \<open>maintenance\<close> depends on the
  cluster and on how many commands have been run before.
\<close>

definition host_check :: "env \<Rightarrow> pystr \<Rightarrow> nat \<Rightarrow> error + bool" where
  "host_check E hostname n =
     fst (check_host_status E hostname (Some (str ''maintenance'')) (world0\<lparr>ncalls := n\<rparr>))"

lemma check_host_status_fst:
  "fst (check_host_status E hostname status w)
   = fst (check_host_status E hostname status (world0\<lparr>ncalls := ncalls w\<rparr>))"
  by (simp add: check_host_status_def exec_command_def Let_def world0_def
      split: sum.splits)

lemma check_host_status_fields:
  "ncalls (snd (check_host_status E hostname status w)) = Suc (ncalls w)"
  "sleeps (snd (check_host_status E hostname status w)) = sleeps w"
  by (simp_all add: check_host_status_def exec_command_def Let_def split: sum.splits)

lemma exec_command_fields:
  "ncalls (snd (exec_command E t cmd w)) = Suc (ncalls w)"
  "sleeps (snd (exec_command E t cmd w)) = sleeps w"
  by (simp_all add: exec_command_def Let_def)

abbreviation before_check :: "env \<Rightarrow> pystr \<Rightarrow> world \<Rightarrow> world" where
  "before_check E hostname w \<equiv>
     sleep 20 (log_at DEBUG ''o/p of maintenance enter cmd''
       (snd (exec_command E Client (enter_cmd hostname) w)))"

abbreviation after_check :: "env \<Rightarrow> pystr \<Rightarrow> world \<Rightarrow> world" where
  "after_check E hostname w \<equiv>
     snd (check_host_status E hostname (Some (str ''maintenance'')) (before_check E hostname w))"

lemma host_maintenance_enter_loop_true:
  assumes "iteration \<le> retry"
    and "outcome (respond E (ncalls w) Client (enter_cmd hostname)) = Inr out"
    and "host_check E hostname (Suc (ncalls w)) = Inr True"
  shows "host_maintenance_enter_loop E hostname retry iteration w =
         (Inr (Some True),
          log_at INFO ''Added host into maintenance mode on the cluster''
            (after_check E hostname w))"
proof -
  obtain w1 where e: "exec_command E Client (enter_cmd hostname) w = (Inr out, w1)"
    using assms(2) by (simp add: exec_command_def Let_def)
  have n1: "ncalls w1 = Suc (ncalls w)"
    using exec_command_fields(1) [of E Client "enter_cmd hostname" w] e by simp
  let ?w2 = "sleep 20 (log_at DEBUG ''o/p of maintenance enter cmd'' w1)"
  have "fst (check_host_status E hostname (Some (str ''maintenance'')) ?w2) = Inr True"
    using assms(3) check_host_status_fst [of E hostname "Some (str ''maintenance'')" ?w2]
    by (simp add: host_check_def n1)
  then obtain w3
    where c: "check_host_status E hostname (Some (str ''maintenance'')) ?w2 = (Inr True, w3)"
    by (cases "check_host_status E hostname (Some (str ''maintenance'')) ?w2") simp
  show ?thesis
    using assms(1)
    by (subst host_maintenance_enter_loop.simps) (simp add: e c)
qed

lemma host_maintenance_enter_loop_false:
  assumes "iteration \<le> retry" and "iteration + 1 \<noteq> retry"
    and "outcome (respond E (ncalls w) Client (enter_cmd hostname)) = Inr out"
    and "host_check E hostname (Suc (ncalls w)) = Inr False"
  shows "host_maintenance_enter_loop E hostname retry iteration w =
         host_maintenance_enter_loop E hostname retry (iteration + 1)
           (sleep 15
              (log_at ERROR ''Host not in maintenance mode. Retrying again in 15 seconds''
                 (after_check E hostname w)))"
proof -
  obtain w1 where e: "exec_command E Client (enter_cmd hostname) w = (Inr out, w1)"
    using assms(3) by (simp add: exec_command_def Let_def)
  have n1: "ncalls w1 = Suc (ncalls w)"
    using exec_command_fields(1) [of E Client "enter_cmd hostname" w] e by simp
  let ?w2 = "sleep 20 (log_at DEBUG ''o/p of maintenance enter cmd'' w1)"
  have "fst (check_host_status E hostname (Some (str ''maintenance'')) ?w2) = Inr False"
    using assms(4) check_host_status_fst [of E hostname "Some (str ''maintenance'')" ?w2]
    by (simp add: host_check_def n1)
  then obtain w3
    where c: "check_host_status E hostname (Some (str ''maintenance'')) ?w2 = (Inr False, w3)"
    by (cases "check_host_status E hostname (Some (str ''maintenance'')) ?w2") simp
  show ?thesis
    using assms(1,2)
    by (subst host_maintenance_enter_loop.simps) (simp add: e c Let_def)
qed

lemma host_maintenance_enter_loop_success:
  assumes "\<forall>i\<le>k. \<exists>out. outcome (respond E (ncalls w + 2 * i) Client (enter_cmd hostname))
                        = Inr out"
    and "\<forall>i<k. host_check E hostname (ncalls w + 2 * i + 1) = Inr False"
    and "host_check E hostname (ncalls w + 2 * k + 1) = Inr True"
    and "iteration + int k < retry"
  shows "fst (host_maintenance_enter_loop E hostname retry iteration w) = Inr (Some True) \<and>
         ncalls (snd (host_maintenance_enter_loop E hostname retry iteration w))
         = ncalls w + 2 * k + 2 \<and>
         sleeps (snd (host_maintenance_enter_loop E hostname retry iteration w))
         = sleeps w @ concat (replicate k [20, 15]) @ [20]"
  using assms
proof (induction k arbitrary: w iteration)
  case 0
  from "0.prems"(1) obtain out
    where e: "outcome (respond E (ncalls w) Client (enter_cmd hostname)) = Inr out"
    by force
  have le: "iteration \<le> retry"
    using "0.prems"(4) by simp
  have c: "host_check E hostname (Suc (ncalls w)) = Inr True"
    using "0.prems"(3) by simp
  show ?case
    unfolding host_maintenance_enter_loop_true [OF le e c]
    by (simp add: check_host_status_fields exec_command_fields)
next
  case (Suc k)
  let ?w2 = "sleep 15
              (log_at ERROR ''Host not in maintenance mode. Retrying again in 15 seconds''
                 (after_check E hostname w))"
  from Suc.prems(1) obtain out
    where e: "outcome (respond E (ncalls w) Client (enter_cmd hostname)) = Inr out"
    by force
  have le: "iteration \<le> retry" and ne: "iteration + 1 \<noteq> retry"
    using Suc.prems(4) by simp_all
  have c: "host_check E hostname (Suc (ncalls w)) = Inr False"
    using Suc.prems(2) by force
  have n2: "ncalls (after_check E hostname w) = ncalls w + 2"
    by (simp add: check_host_status_fields exec_command_fields)
  have s2: "sleeps (after_check E hostname w) = sleeps w @ [20]"
    by (simp add: check_host_status_fields exec_command_fields)
  have a1: "\<forall>i\<le>k. \<exists>out. outcome (respond E (ncalls ?w2 + 2 * i) Client (enter_cmd hostname))
                        = Inr out"
  proof (intro allI impI)
    fix i assume "i \<le> k"
    then have "Suc i \<le> Suc k" by simp
    with Suc.prems(1) have "\<exists>out. outcome (respond E (ncalls w + 2 * Suc i) Client
                                  (enter_cmd hostname)) = Inr out"
      by blast
    moreover have "ncalls ?w2 + 2 * i = ncalls w + 2 * Suc i"
      by (simp add: n2)
    ultimately show "\<exists>out. outcome (respond E (ncalls ?w2 + 2 * i) Client (enter_cmd hostname))
                        = Inr out"
      by (simp only:)
  qed
  have a2: "\<forall>i<k. host_check E hostname (ncalls ?w2 + 2 * i + 1) = Inr False"
  proof (intro allI impI)
    fix i assume "i < k"
    then have "Suc i < Suc k" by simp
    with Suc.prems(2) have "host_check E hostname (ncalls w + 2 * Suc i + 1) = Inr False"
      by blast
    moreover have "ncalls ?w2 + 2 * i + 1 = ncalls w + 2 * Suc i + 1"
      by (simp add: n2)
    ultimately show "host_check E hostname (ncalls ?w2 + 2 * i + 1) = Inr False"
      by (simp only:)
  qed
  have "ncalls ?w2 + 2 * k + 1 = ncalls w + 2 * Suc k + 1"
    by (simp add: n2)
  with Suc.prems(3) have a3: "host_check E hostname (ncalls ?w2 + 2 * k + 1) = Inr True"
    by (simp only:)
  have a4: "(iteration + 1) + int k < retry"
    using Suc.prems(4) by simp
  note ih = Suc.IH [OF a1 a2 a3 a4]
  show ?case
    unfolding host_maintenance_enter_loop_false [OF le ne e c]
    using ih by (simp add: n2 s2)
qed

text \<open>
  C4, as amended. In the loop of \<open>verify_reweight\<close>, let the states \<open>S 0\<close>, ...,
  \<open>S k\<close> be what the next fetches return, the predicate be false of \<open>S 0\<close>, ...,
  \<open>S (k - 1)\<close> and true of \<open>S k\<close>, and the deadline lie after the start of the fetch
  number \<open>k\<close>. Then the loop ends with success right after that fetch: it has run
  \<open>k + 1\<close> fetches and slept \<open>k\<close> times (60 seconds after each of the first \<open>k\<close>
  fetches), with no sleep before the first check and none after the last.

  \<open>host_maintenance_enter\<close> sleeps 20 seconds between its command and every check,
  and 15 seconds more after a check that fails. If the check number \<open>k\<close> is the first
  that succeeds, and \<open>k < retry\<close>, it returns \<open>True\<close> right after that check and has
  slept \<open>2 * k + 1\<close> times.
\<close>

theorem polling_success_sleeps:
  "((\<forall>i\<le>k. fetched E False (str ''ceph report'') (ncalls w + i) = Inr (S i)) \<and>
    (\<forall>i<k. reweight_pred (S i) = Inr (Some False) \<and> (\<exists>ks. health_checks (S i) = Inr ks)) \<and>
    reweight_pred (S k) = Inr (Some True) \<and>
    clock w + (\<Sum>i<k. fetch_latency E False (str ''ceph report'') (ncalls w + i) + 60000000)
      < end_time
    \<longrightarrow> fst (verify_reweight_loop E end_time flag w) = Inr (Some True) \<and>
        ncalls (snd (verify_reweight_loop E end_time flag w)) = ncalls w + Suc k \<and>
        sleeps (snd (verify_reweight_loop E end_time flag w)) = sleeps w @ replicate k 60) \<and>
   ((\<forall>i\<le>k'. \<exists>out. outcome (respond E' (ncalls w' + 2 * i) Client (enter_cmd hostname))
                    = Inr out) \<and>
    (\<forall>i<k'. host_check E' hostname (ncalls w' + 2 * i + 1) = Inr False) \<and>
    host_check E' hostname (ncalls w' + 2 * k' + 1) = Inr True \<and>
    int k' < retry
    \<longrightarrow> fst (host_maintenance_enter E' hostname retry w') = Inr (Some True) \<and>
        ncalls (snd (host_maintenance_enter E' hostname retry w')) = ncalls w' + 2 * k' + 2 \<and>
        sleeps (snd (host_maintenance_enter E' hostname retry w'))
        = sleeps w' @ concat (replicate k' [20, 15]) @ [20])"
proof (intro conjI impI)
  assume a: "(\<forall>i\<le>k. fetched E False (str ''ceph report'') (ncalls w + i) = Inr (S i)) \<and>
    (\<forall>i<k. reweight_pred (S i) = Inr (Some False) \<and> (\<exists>ks. health_checks (S i) = Inr ks)) \<and>
    reweight_pred (S k) = Inr (Some True) \<and>
    clock w + (\<Sum>i<k. fetch_latency E False (str ''ceph report'') (ncalls w + i) + 60000000)
      < end_time"
  then have a1: "\<forall>i\<le>k. fetched E False (str ''ceph report'') (ncalls w + i) = Inr (S i)"
    and a2: "\<forall>i<k. reweight_pred (S i) = Inr (Some False) \<and>
                   (\<exists>ks. health_checks (S i) = Inr ks)"
    and a3: "reweight_pred (S k) = Inr (Some True)"
    and a4: "clock w + (\<Sum>i<k. fetch_latency E False (str ''ceph report'') (ncalls w + i)
                         + 60000000) < end_time"
    by blast+
  note r = verify_reweight_loop_succeeds [OF a1 a2 a3 a4, of flag]
  from r show "fst (verify_reweight_loop E end_time flag w) = Inr (Some True)" by blast
  from r show "ncalls (snd (verify_reweight_loop E end_time flag w)) = ncalls w + Suc k"
    by blast
  from r show "sleeps (snd (verify_reweight_loop E end_time flag w))
               = sleeps w @ replicate k 60"
    by blast
next
  assume b: "(\<forall>i\<le>k'. \<exists>out. outcome (respond E' (ncalls w' + 2 * i) Client (enter_cmd hostname))
                    = Inr out) \<and>
    (\<forall>i<k'. host_check E' hostname (ncalls w' + 2 * i + 1) = Inr False) \<and>
    host_check E' hostname (ncalls w' + 2 * k' + 1) = Inr True \<and>
    int k' < retry"
  let ?w = "log_at DEBUG ''Passed host to be added into maintenance mode'' w'"
  from b have b1: "\<forall>i\<le>k'. \<exists>out. outcome (respond E' (ncalls ?w + 2 * i) Client
                                  (enter_cmd hostname)) = Inr out"
    and b2: "\<forall>i<k'. host_check E' hostname (ncalls ?w + 2 * i + 1) = Inr False"
    and b3: "host_check E' hostname (ncalls ?w + 2 * k' + 1) = Inr True"
    and b4: "0 + int k' < retry"
    by simp_all
  note r = host_maintenance_enter_loop_success [OF b1 b2 b3 b4]
  from r show "fst (host_maintenance_enter E' hostname retry w') = Inr (Some True)"
    by (simp add: host_maintenance_enter_def)
  from r show "ncalls (snd (host_maintenance_enter E' hostname retry w'))
               = ncalls w' + 2 * k' + 2"
    by (simp add: host_maintenance_enter_def)
  from r show "sleeps (snd (host_maintenance_enter E' hostname retry w'))
               = sleeps w' @ concat (replicate k' [20, 15]) @ [20]"
    by (simp add: host_maintenance_enter_def)
qed

text \<open>
  A run of each loop with one check that fails: the first report shows a remapped
  placement group, the second does not; the host is offline at first and then in
  maintenance mode.
\<close>

definition host_offline_then_maintenance :: env where
  "host_offline_then_maintenance =
     scripted [prints 0 [], prints 0 ''[{\"status\": \"Offline\"}]'',
               prints 0 [], prints 0 ''[{\"status\": \"Maintenance\"}]'']"

lemma host_ls_offline_loads:
  "json_loads (str ''[{\"status\": \"Offline\"}]'')
   = Inr (JArr [JObj [(str ''status'', JStr (str ''Offline''))]])"
  by (simp add: decode_simps)

lemma host_ls_maintenance_loads:
  "json_loads (str ''[{\"status\": \"Maintenance\"}]'')
   = Inr (JArr [JObj [(str ''status'', JStr (str ''Maintenance''))]])"
  by (simp add: decode_simps)

lemma host_check_offline:
  "host_check host_offline_then_maintenance (str ''host1'') 1 = Inr False"
  by (simp add: host_check_def check_host_status_def exec_command_def Let_def
      host_offline_then_maintenance_def scripted_def prints_def world0_def
      host_ls_offline_loads ascii_lower_def, simp add: str_def)

lemma host_check_maintenance:
  "host_check host_offline_then_maintenance (str ''host1'') 3 = Inr True"
  by (simp add: host_check_def check_host_status_def exec_command_def Let_def
      host_offline_then_maintenance_def scripted_def prints_def world0_def
      host_ls_maintenance_loads ascii_lower_def, simp add: str_def)

theorem polling_success_sleeps_witness:
  "fetched (scripted [prints 5 report_busy, prints 7 report_clean]) False (str ''ceph report'')
     0 = Inr doc_busy \<and>
   fetched (scripted [prints 5 report_busy, prints 7 report_clean]) False (str ''ceph report'')
     1 = Inr doc_clean \<and>
   reweight_pred doc_busy = Inr (Some False) \<and>
   health_checks doc_busy = Inr [str ''PG_DEGRADED''] \<and>
   reweight_pred doc_clean = Inr (Some True) \<and>
   fst (verify_reweight_loop (scripted [prints 5 report_busy, prints 7 report_clean])
          1200000000 None world0) = Inr (Some True) \<and>
   ncalls (snd (verify_reweight_loop (scripted [prints 5 report_busy, prints 7 report_clean])
          1200000000 None world0)) = 2 \<and>
   sleeps (snd (verify_reweight_loop (scripted [prints 5 report_busy, prints 7 report_clean])
          1200000000 None world0)) = [60] \<and>
   host_check host_offline_then_maintenance (str ''host1'') 1 = Inr False \<and>
   host_check host_offline_then_maintenance (str ''host1'') 3 = Inr True \<and>
   fst (host_maintenance_enter host_offline_then_maintenance (str ''host1'') 10 world0)
     = Inr (Some True) \<and>
   ncalls (snd (host_maintenance_enter host_offline_then_maintenance (str ''host1'') 10 world0))
     = 4 \<and>
   sleeps (snd (host_maintenance_enter host_offline_then_maintenance (str ''host1'') 10 world0))
     = [20, 15, 20]"
proof -
  let ?E = "scripted [prints 5 report_busy, prints 7 report_clean]"
  let ?S = "\<lambda>i::nat. if i = 0 then doc_busy else doc_clean"
  let ?H = host_offline_then_maintenance
  have n: "ncalls world0 = 0" and s: "sleeps world0 = []" and c: "clock world0 = 0"
    by (simp_all add: world0_def)
  have f0: "fetched ?E False (str ''ceph report'') 0 = Inr doc_busy"
    by (simp add: fetched_scripted prints_def report_busy_not_space report_busy_loads)
  have f1: "fetched ?E False (str ''ceph report'') 1 = Inr doc_clean"
    by (simp add: fetched_scripted prints_def report_clean_not_space report_clean_loads)
  have a1: "\<forall>i\<le>1. fetched ?E False (str ''ceph report'') (ncalls world0 + i) = Inr (?S i)"
  proof (intro allI impI)
    fix i :: nat
    assume "i \<le> 1"
    then have "i = 0 \<or> i = 1" by auto
    then show "fetched ?E False (str ''ceph report'') (ncalls world0 + i) = Inr (?S i)"
      using f0 f1 n by auto
  qed
  have a2: "\<forall>i<1. reweight_pred (?S i) = Inr (Some False) \<and>
              (\<exists>ks. health_checks (?S i) = Inr ks)"
    by (simp add: reweight_pred_busy health_checks_busy)
  have a3: "reweight_pred (?S 1) = Inr (Some True)"
    by (simp add: reweight_pred_clean)
  have l0: "fetch_latency ?E False (str ''ceph report'') 0 = 5"
    by (simp add: fetch_latency_def scripted_def prints_def)
  have a4: "clock world0
              + (\<Sum>i<1. fetch_latency ?E False (str ''ceph report'') (ncalls world0 + i) + 60000000)
            < 1200000000"
    by (simp add: n c l0)
  have b1: "\<forall>i\<le>1. \<exists>out. outcome (respond ?H (ncalls world0 + 2 * i) Client
                                 (enter_cmd (str ''host1''))) = Inr out"
  proof (intro allI impI)
    fix i :: nat
    assume "i \<le> 1"
    then have "i = 0 \<or> i = 1" by auto
    then show "\<exists>out. outcome (respond ?H (ncalls world0 + 2 * i) Client
                                 (enter_cmd (str ''host1''))) = Inr out"
      by (auto simp: n host_offline_then_maintenance_def scripted_def prints_def)
  qed
  have b2: "\<forall>i<1. host_check ?H (str ''host1'') (ncalls world0 + 2 * i + 1) = Inr False"
    using host_check_offline by (simp add: n)
  have "ncalls world0 + 2 * 1 + 1 = 3"
    by (simp add: n)
  with host_check_maintenance
  have b3: "host_check ?H (str ''host1'') (ncalls world0 + 2 * 1 + 1) = Inr True"
    by (simp only:)
  have b4: "int 1 < 10" by simp
  note r = polling_success_sleeps [of 1 ?E world0 ?S 1200000000 None 1 ?H world0
      "str ''host1''" 10]
  have r1: "fst (verify_reweight_loop ?E 1200000000 None world0) = Inr (Some True) \<and>
        ncalls (snd (verify_reweight_loop ?E 1200000000 None world0)) = ncalls world0 + Suc 1 \<and>
        sleeps (snd (verify_reweight_loop ?E 1200000000 None world0))
        = sleeps world0 @ replicate 1 60"
    using r a1 a2 a3 a4 by blast
  have r2: "fst (host_maintenance_enter ?H (str ''host1'') 10 world0) = Inr (Some True) \<and>
        ncalls (snd (host_maintenance_enter ?H (str ''host1'') 10 world0))
        = ncalls world0 + 2 * 1 + 2 \<and>
        sleeps (snd (host_maintenance_enter ?H (str ''host1'') 10 world0))
        = sleeps world0 @ concat (replicate 1 [20, 15]) @ [20]"
    using r b1 b2 b3 b4 by blast
  show ?thesis
    using f0 f1 reweight_pred_busy health_checks_busy reweight_pred_clean
      host_check_offline host_check_maintenance r1 r2
    by (simp add: n s)
qed

text \<open>
  C4, as stated, fails for \<open>host_maintenance_enter\<close>: the host is in maintenance
  mode at the first check, and the loop has slept once, for 20 seconds, before that
  check.
\<close>

definition host_in_maintenance :: env where
  "host_in_maintenance = scripted [prints 0 [], prints 0 ''[{\"status\": \"Maintenance\"}]'']"

lemma host_ls_loads:
  "json_loads (str ''[{\"status\": \"Maintenance\"}]'')
   = Inr (JArr [JObj [(str ''status'', JStr (str ''Maintenance''))]])"
  by (simp add: decode_simps)

theorem host_maintenance_enter_sleeps_first_counterexample:
  "fst (host_maintenance_enter host_in_maintenance (str ''host1'') 10 world0) = Inr (Some True) \<and>
   ncalls (snd (host_maintenance_enter host_in_maintenance (str ''host1'') 10 world0)) = 2 \<and>
   sleeps (snd (host_maintenance_enter host_in_maintenance (str ''host1'') 10 world0)) = [20]"
proof -
  have "check_host_status host_in_maintenance (str ''host1'') (Some (str ''maintenance''))
          (sleep 20 (log_at DEBUG ''o/p of maintenance enter cmd''
             (snd (exec_command host_in_maintenance Client (enter_cmd (str ''host1''))
                (log_at DEBUG ''Passed host to be added into maintenance mode'' world0)))))
        = (Inr True,
           \<lparr>clock = 20000000, ncalls = 2,
            issued = [(Client, str ''ceph orch host maintenance enter host1 --force''),
                      (Client, str ''ceph orch host ls --host_pattern host1 -f json'')],
            sleeps = [20],
            logs = [(DEBUG, ''Passed host to be added into maintenance mode''),
                    (DEBUG, ''o/p of maintenance enter cmd'')]\<rparr>)"
    by (simp add: check_host_status_def exec_command_def Let_def host_in_maintenance_def
        scripted_def prints_def world0_def log_at_def sleep_def host_ls_loads
        ascii_lower_def enter_cmd_def, simp add: str_def)
  then show ?thesis
    by (simp add: host_maintenance_enter_def host_maintenance_enter_loop.simps
        exec_command_def Let_def host_in_maintenance_def scripted_def prints_def world0_def
        log_at_def sleep_def)
qed

subsection \<open>The loop of \<open>run_pool_sanity_check\<close>\<close>

abbreviation after_client_report :: "env \<Rightarrow> world \<Rightarrow> world" where
  "after_client_report E w \<equiv> snd (run_ceph_command E (str ''ceph report'') True w)"

lemma run_pool_sanity_loop_done:
  assumes "\<not> clock w < end_time"
  shows "run_pool_sanity_loop E end_time flag w = (Inr flag, w)"
  using assms by (subst run_pool_sanity_loop.simps) simp

lemma run_pool_sanity_loop_true:
  assumes "clock w < end_time"
    and "fetched E True (str ''ceph report'') (ncalls w) = Inr S"
    and "sanity_flag S = Inr True"
  shows "run_pool_sanity_loop E end_time flag w =
         (Inr True, log_at INFO ''No warnings on the cluster'' (after_client_report E w))"
  using assms
  by (subst run_pool_sanity_loop.simps, subst run_ceph_command_eq) simp

lemma run_pool_sanity_loop_false:
  assumes "clock w < end_time"
    and "fetched E True (str ''ceph report'') (ncalls w) = Inr S"
    and "sanity_flag S = Inr False"
  shows "run_pool_sanity_loop E end_time flag w =
         run_pool_sanity_loop E end_time False
           (sleep 10 (log_at INFO ''Observing a health warning on cluster''
              (after_client_report E w)))"
  using assms
  by (subst run_pool_sanity_loop.simps, subst run_ceph_command_eq) simp

text \<open>
  The loop when every report shows a warning and no fetch takes longer than \<open>L\<close>
  microseconds; \<open>m\<close> is the number of fetches.
\<close>

lemma run_pool_sanity_loop_all_false:
  assumes "\<forall>n. ncalls w \<le> n \<longrightarrow>
             (\<exists>S. fetched E True (str ''ceph report'') n = Inr S \<and> sanity_flag S = Inr False)"
    and "\<forall>n. ncalls w \<le> n \<longrightarrow> fetch_latency E True (str ''ceph report'') n \<le> L"
    and "clock w < end_time"
    and "r = run_pool_sanity_loop E end_time flag w"
    and "m = ncalls (snd r) - ncalls w"
  shows "fst r = Inr False \<and>
         ncalls (snd r) = ncalls w + m \<and>
         sleeps (snd r) = sleeps w @ replicate m 10 \<and>
         end_time \<le> clock (snd r) \<and>
         clock (snd r) < end_time + 10000000 + L \<and>
         1 \<le> m \<and>
         (m - 1) * 10000000 < end_time - clock w \<and>
         end_time - clock w \<le> m * (10000000 + L)"
  using assms
proof (induction "end_time - clock w" arbitrary: w flag r m rule: less_induct)
  case less
  let ?w2 = "sleep 10 (log_at INFO ''Observing a health warning on cluster''
              (after_client_report E w))"
  let ?lat = "fetch_latency E True (str ''ceph report'') (ncalls w)"
  from less.prems(1) obtain S where f: "fetched E True (str ''ceph report'') (ncalls w) = Inr S"
    and s: "sanity_flag S = Inr False"
    by auto
  have lat: "?lat \<le> L"
    using less.prems(2) by simp
  have step: "run_pool_sanity_loop E end_time flag w = run_pool_sanity_loop E end_time False ?w2"
    using less.prems(3) f s by (rule run_pool_sanity_loop_false)
  have n2: "ncalls ?w2 = Suc (ncalls w)"
    by (simp add: sleep_def log_at_def ncalls_run_ceph_command)
  have c2: "clock ?w2 = clock w + ?lat + 10000000"
    by (simp add: sleep_def log_at_def clock_run_ceph_command')
  have s2: "sleeps ?w2 = sleeps w @ [10]"
    by (simp add: sleep_def log_at_def sleeps_run_ceph_command)
  have r: "r = run_pool_sanity_loop E end_time False ?w2"
    using less.prems(4) step by simp
  show ?case
  proof (cases "clock ?w2 < end_time")
    case False
    then have "r = (Inr False, ?w2)"
      using r by (simp add: run_pool_sanity_loop_done)
    moreover from this have "m = 1"
      using less.prems(5) n2 by simp
    ultimately show ?thesis
      using False c2 s2 n2 lat less.prems(3) by simp
  next
    case True
    have h1: "\<forall>n. ncalls ?w2 \<le> n \<longrightarrow>
             (\<exists>S. fetched E True (str ''ceph report'') n = Inr S \<and> sanity_flag S = Inr False)"
      using less.prems(1) n2 by auto
    have h2: "\<forall>n. ncalls ?w2 \<le> n \<longrightarrow> fetch_latency E True (str ''ceph report'') n \<le> L"
      using less.prems(2) n2 by auto
    define m' where "m' = ncalls (snd r) - ncalls ?w2"
    have smaller: "end_time - clock ?w2 < end_time - clock w"
      using less.prems(3) c2 by simp
    note ih' = less.hyps [OF smaller h1 h2 True r m'_def]
    have m: "m = Suc m'"
      using less.prems(5) ih' n2 by simp
    have less: "(m - 1) * 10000000 < end_time - clock w"
    proof -
      have "m' * 10000000 = (m' - 1) * 10000000 + 10000000"
        using ih' by (cases m') simp_all
      also have "\<dots> < (end_time - clock ?w2) + 10000000"
        using ih' by simp
      also have "\<dots> \<le> end_time - clock w"
        using True c2 by simp
      finally show ?thesis using m by simp
    qed
    have more: "end_time - clock w \<le> m * (10000000 + L)"
    proof -
      have "end_time - clock w = (end_time - clock ?w2) + (?lat + 10000000)"
        using True c2 by simp
      also have "\<dots> \<le> m' * (10000000 + L) + (10000000 + L)"
        using ih' lat by simp
      finally show ?thesis using m by simp
    qed
    have sl: "sleeps (snd r) = sleeps w @ replicate m 10"
      using ih' s2 m by (simp add: replicate_append_same [symmetric])
    show ?thesis
      using ih' n2 m less more sl by simp
  qed
qed
text \<open>
  C5, as amended, for the loop of \<open>run_pool_sanity_check\<close> (interval \<open>I\<close> = 10
  seconds), started \<open>D\<close> microseconds before its deadline. If every report shows a
  warning and no fetch takes longer than \<open>L\<close>, the loop ends and gives \<open>False\<close>; the
  time it has taken lies in \<open>[D, D + I + L)\<close>; the number \<open>m\<close> of fetches satisfies
  \<open>(m - 1) * I < D \<le> m * (I + L)\<close>; and it has slept after every fetch. With \<open>L = 0\<close>
  the time lies in \<open>[D, D + I)\<close> and \<open>m\<close> is \<open>D / I\<close> rounded up.
\<close>

theorem run_pool_sanity_loop_timeout:
  assumes "\<forall>n. ncalls w \<le> n \<longrightarrow>
             (\<exists>S. fetched E True (str ''ceph report'') n = Inr S \<and> sanity_flag S = Inr False)"
    and "\<forall>n. ncalls w \<le> n \<longrightarrow> fetch_latency E True (str ''ceph report'') n \<le> L"
    and "0 < D"
    and "r = run_pool_sanity_loop E (clock w + D) False w"
    and "elapsed = clock (snd r) - clock w"
    and "m = ncalls (snd r) - ncalls w"
  shows "fst r = Inr False \<and>
         D \<le> elapsed \<and> elapsed < D + 10000000 + L \<and>
         1 \<le> m \<and> (m - 1) * 10000000 < D \<and> D \<le> m * (10000000 + L) \<and>
         sleeps (snd r) = sleeps w @ replicate m 10"
proof -
  have start: "clock w < clock w + D"
    using assms(3) by simp
  note inv = run_pool_sanity_loop_all_false [OF assms(1) assms(2) start assms(4) assms(6)]
  have "clock w + D \<le> clock (snd r)" and "clock (snd r) < clock w + D + 10000000 + L"
    using inv by simp_all
  then have "D \<le> elapsed" and "elapsed < D + 10000000 + L"
    using assms(5) by simp_all
  then show ?thesis
    using inv by simp
qed

text \<open>
  A cluster with a warning that stays, on which every \<open>ceph report\<close> takes 150
  seconds and every other command no time and prints nothing.
\<close>

definition slow_warning :: env where
  "slow_warning =
     answering (\<lambda>cmd. if cmd = str ''ceph report -f json''
                       then prints 150000000 report_busy else prints 0 [])"

lemma sanity_flag_busy: "sanity_flag doc_busy = Inr False"
  by (simp add: sanity_flag_def health_checks_busy health_warns_def)

lemma fetched_slow_warning:
  "fetched slow_warning ce (str ''ceph report'') n = Inr doc_busy"
proof -
  have "str ''ceph report'' @ str '' -f json'' = str ''ceph report -f json''"
    by (simp add: str_def)
  then show ?thesis
    by (simp add: fetched_def run_ceph_command_def exec_command_def Let_def slow_warning_def
        answering_def prints_def report_busy_not_space report_busy_loads)
qed

lemma fetch_latency_slow_warning:
  "fetch_latency slow_warning ce (str ''ceph report'') n = 150000000"
proof -
  have "str ''ceph report'' @ str '' -f json'' = str ''ceph report -f json''"
    by (simp add: str_def)
  then show ?thesis
    by (simp add: fetch_latency_def slow_warning_def answering_def prints_def)
qed

theorem run_pool_sanity_loop_timeout_witness:
  "fetched slow_warning True (str ''ceph report'') 0 = Inr doc_busy \<and>
   sanity_flag doc_busy = Inr False \<and>
   fetch_latency slow_warning True (str ''ceph report'') 0 \<le> 150000000 \<and>
   (0::nat) < 600000000 \<and>
   fst (run_pool_sanity_loop slow_warning (clock world0 + 600000000) False world0) = Inr False \<and>
   600000000 \<le> clock (snd (run_pool_sanity_loop slow_warning (clock world0 + 600000000)
                          False world0)) - clock world0 \<and>
   clock (snd (run_pool_sanity_loop slow_warning (clock world0 + 600000000) False world0))
     - clock world0 < 600000000 + 10000000 + 150000000 \<and>
   (ncalls (snd (run_pool_sanity_loop slow_warning (clock world0 + 600000000) False world0))
     - ncalls world0 - 1) * 10000000 < 600000000"
proof -
  have a1: "\<forall>n. ncalls world0 \<le> n \<longrightarrow>
             (\<exists>S. fetched slow_warning True (str ''ceph report'') n = Inr S \<and>
                  sanity_flag S = Inr False)"
    using fetched_slow_warning sanity_flag_busy by blast
  have a2: "\<forall>n. ncalls world0 \<le> n \<longrightarrow>
             fetch_latency slow_warning True (str ''ceph report'') n \<le> 150000000"
    by (simp add: fetch_latency_slow_warning)
  have a3: "(0::nat) < 600000000" by simp
  note r = run_pool_sanity_loop_timeout [OF a1 a2 a3 refl refl refl]
  show ?thesis
    using r fetched_slow_warning [of True 0] sanity_flag_busy
      fetch_latency_slow_warning [of True 0]
    by simp
qed

text \<open>
  C5, as stated, fails when a fetch takes time. On that cluster the loop with a
  deadline of 600 seconds and an interval of 10 seconds ends after 640 seconds, which
  is not in \<open>[600, 610)\<close>, and has fetched 4 times, not about 60 times.
\<close>

theorem run_pool_sanity_loop_slow_counterexample:
  "fst (run_pool_sanity_loop slow_warning 600000000 False world0) = Inr False \<and>
   clock world0 = 0 \<and>
   clock (snd (run_pool_sanity_loop slow_warning 600000000 False world0)) = 640000000 \<and>
   ncalls world0 = 0 \<and>
   ncalls (snd (run_pool_sanity_loop slow_warning 600000000 False world0)) = 4"
proof -
  let ?next = "\<lambda>w. sleep 10 (log_at INFO ''Observing a health warning on cluster''
                       (after_client_report slow_warning w))"
  have step: "run_pool_sanity_loop slow_warning 600000000 f w
              = run_pool_sanity_loop slow_warning 600000000 False (?next w)"
    if "clock w < 600000000" for w f
    using that fetched_slow_warning sanity_flag_busy by (rule run_pool_sanity_loop_false)
  have c: "clock (after_client_report slow_warning w) = clock w + 150000000" for w
    by (simp add: clock_run_ceph_command' fetch_latency_slow_warning)
  have n: "ncalls (after_client_report slow_warning w) = Suc (ncalls w)" for w
    by (simp add: ncalls_run_ceph_command)
  have c0: "clock world0 = 0" and n0: "ncalls world0 = 0"
    by (simp_all add: world0_def)
  let ?w4 = "?next (?next (?next (?next world0)))"
  have "run_pool_sanity_loop slow_warning 600000000 False world0
        = run_pool_sanity_loop slow_warning 600000000 False (?next world0)"
    by (rule step) (simp add: c0)
  also have "\<dots> = run_pool_sanity_loop slow_warning 600000000 False (?next (?next world0))"
    by (rule step) (simp add: c c0)
  also have "\<dots> = run_pool_sanity_loop slow_warning 600000000 False
                    (?next (?next (?next world0)))"
    by (rule step) (simp add: c c0)
  also have "\<dots> = run_pool_sanity_loop slow_warning 600000000 False ?w4"
    by (rule step) (simp add: c c0)
  also have "\<dots> = (Inr False, ?w4)"
    by (rule run_pool_sanity_loop_done) (simp add: c c0)
  finally have "run_pool_sanity_loop slow_warning 600000000 False world0 = (Inr False, ?w4)" .
  then show ?thesis
    by (simp add: c n c0 n0)
qed

subsection \<open>Deadlines that pass\<close>

lemma verify_reweight_loop_done:
  assumes "\<not> clock w < end_time"
  shows "verify_reweight_loop E end_time flag w = (Inr flag, w)"
  using assms by (subst verify_reweight_loop.simps) simp

lemma verify_reweight_loop_all_false:
  assumes "\<forall>n. ncalls w \<le> n \<longrightarrow>
             (\<exists>S ks. fetched E False (str ''ceph report'') n = Inr S \<and>
                     reweight_pred S = Inr (Some False) \<and> health_checks S = Inr ks)"
    and "clock w < end_time"
  shows "fst (verify_reweight_loop E end_time flag w) = Inr (Some False)"
  using assms
proof (induction "end_time - clock w" arbitrary: w flag rule: less_induct)
  case less
  let ?w2 = "sleep 60 (log_at INFO ''Waiting for active + clean'' (after_report E w))"
  from less.prems(1) obtain S ks
    where f: "fetched E False (str ''ceph report'') (ncalls w) = Inr S"
      and p: "reweight_pred S = Inr (Some False)" and h: "health_checks S = Inr ks"
    by blast
  have step: "verify_reweight_loop E end_time flag w
              = verify_reweight_loop E end_time (Some False) ?w2"
    using less.prems(2) f p h by (rule verify_reweight_loop_false)
  have n2: "ncalls ?w2 = Suc (ncalls w)"
    by (simp add: sleep_def log_at_def ncalls_run_ceph_command)
  have c2: "clock ?w2 = clock w + fetch_latency E False (str ''ceph report'') (ncalls w)
                        + 60000000"
    by (simp add: sleep_def log_at_def clock_run_ceph_command')
  show ?case
  proof (cases "clock ?w2 < end_time")
    case False
    then show ?thesis
      unfolding step by (simp add: verify_reweight_loop_done)
  next
    case True
    have smaller: "end_time - clock ?w2 < end_time - clock w"
      using less.prems(2) c2 by simp
    have h1: "\<forall>n. ncalls ?w2 \<le> n \<longrightarrow>
             (\<exists>S ks. fetched E False (str ''ceph report'') n = Inr S \<and>
                     reweight_pred S = Inr (Some False) \<and> health_checks S = Inr ks)"
      using less.prems(1) n2 by auto
    show ?thesis
      unfolding step using less.hyps [OF smaller h1 True] .
  qed
qed

lemma run_pool_sanity_loop_all_false_result:
  assumes "\<forall>n. \<exists>S. fetched E True (str ''ceph report'') n = Inr S \<and> sanity_flag S = Inr False"
    and "clock w < end_time"
  shows "fst (run_pool_sanity_loop E end_time flag w) = Inr False"
  using assms(2)
proof (induction "end_time - clock w" arbitrary: w flag rule: less_induct)
  case less
  let ?w2 = "sleep 10 (log_at INFO ''Observing a health warning on cluster''
              (after_client_report E w))"
  from assms(1) obtain S where f: "fetched E True (str ''ceph report'') (ncalls w) = Inr S"
    and s: "sanity_flag S = Inr False"
    by blast
  have step: "run_pool_sanity_loop E end_time flag w
              = run_pool_sanity_loop E end_time False ?w2"
    using less.prems f s by (rule run_pool_sanity_loop_false)
  have c2: "clock ?w2 = clock w + fetch_latency E True (str ''ceph report'') (ncalls w)
                        + 10000000"
    by (simp add: sleep_def log_at_def clock_run_ceph_command')
  show ?case
  proof (cases "clock ?w2 < end_time")
    case False
    then show ?thesis unfolding step by (simp add: run_pool_sanity_loop_done)
  next
    case True
    have "end_time - clock ?w2 < end_time - clock w"
      using less.prems c2 by simp
    then show ?thesis
      unfolding step using less.hyps True by blast
  qed
qed

lemma exec_command_ok:
  assumes "\<forall>n t c. \<exists>out. outcome (respond E n t c) = Inr out"
  obtains out w' where "exec_command E t cmd w = (Inr out, w')"
proof -
  from assms obtain out where "outcome (respond E (ncalls w) t cmd) = Inr out" by blast
  then have "exec_command E t cmd w = (Inr out, snd (exec_command E t cmd w))"
    by (simp add: exec_command_def Let_def)
  then show ?thesis by (rule that)
qed

lemma change_recovery_threads_ok:
  assumes "\<forall>n t c. \<exists>out. outcome (respond E n t c) = Inr out"
  shows "fst (change_recovery_threads E config action w) = Inr ()"
proof -
  obtain o1 w1 where e1: "exec_command E Node (str ''ceph config get osd osd_op_queue'') w
                          = (Inr o1, w1)"
    using assms by (rule exec_command_ok)
  define mclock where "mclock = str_contains (str_lower E (str ''mclock'')) (str_lower E o1)"
  have c: "check_osd_op_queue E (str ''mclock'') w = (Inr mclock, w1)"
    using e1 by (simp add: check_osd_op_queue_def mclock_def)
  obtain o2 w2 where e2: "(if mclock
            then exec_command E Node
                   (str ''ceph config set osd osd_mclock_override_recovery_settings true'') w1
            else (Inr [], w1)) = (Inr o2, w2)"
  proof (cases mclock)
    case True
    obtain out w' where "exec_command E Node
                   (str ''ceph config set osd osd_mclock_override_recovery_settings true'') w1
          = (Inr out, w')"
      using assms by (rule exec_command_ok)
    with True show ?thesis by (intro that [of out w']) simp
  next
    case False
    then show ?thesis by (intro that [of "[]" w1]) simp
  qed
  obtain o3 w3 where e3: "exec_command E Node
             (recovery_command config action (str ''osd_max_backfills'')) w2 = (Inr o3, w3)"
    using assms by (rule exec_command_ok)
  obtain o4 w4 where e4: "exec_command E Node
             (recovery_command config action (str ''osd_recovery_max_active'')) w3
             = (Inr o4, w4)"
    using assms by (rule exec_command_ok)
  show ?thesis
    unfolding change_recovery_threads_def c
    using e2 e3 e4 by simp
qed

text \<open>
  C6. On a cluster whose transport never fails, if every report shows a warning
  (for \<open>run_pool_sanity_check\<close>) and every report shows a placement group that is
  remapped or backfilling (for \<open>verify_reweight\<close>), the deadline passes and each of
  the two operations returns \<open>False\<close>; none raises.
\<close>

theorem deadline_expiry_returns_False:
  assumes "\<forall>n t c. \<exists>out. outcome (respond E n t c) = Inr out"
    and "\<forall>n. \<exists>S. fetched E True (str ''ceph report'') n = Inr S \<and> sanity_flag S = Inr False"
    and "\<forall>n. \<exists>S ks. fetched E False (str ''ceph report'') n = Inr S \<and>
                    reweight_pred S = Inr (Some False) \<and> health_checks S = Inr ks"
  shows "fst (run_pool_sanity_check E w) = Inr False \<and>
         fst (verify_reweight E check_utilization w) = Inr False"
proof
  obtain o1 w1 where e1: "exec_command E Client (str ''ceph osd scrub all'') w = (Inr o1, w1)"
    using assms(1) by (rule exec_command_ok)
  obtain o2 w2 where e2: "exec_command E Client (str ''ceph osd deep-scrub all'') w1
                          = (Inr o2, w2)"
    using assms(1) by (rule exec_command_ok)
  have "fst (run_pool_sanity_loop E (clock (sleep 10 w2) + 600 * 1000000) False (sleep 10 w2))
        = Inr False"
    using assms(2) by (rule run_pool_sanity_loop_all_false_result) simp
  then obtain w4
    where r: "run_pool_sanity_loop E (clock (sleep 10 w2) + 600 * 1000000) False (sleep 10 w2)
              = (Inr False, w4)"
    by (cases "run_pool_sanity_loop E (clock (sleep 10 w2) + 600 * 1000000) False (sleep 10 w2)")
      simp
  show "fst (run_pool_sanity_check E w) = Inr False"
    using e1 e2 r
    by (simp add: run_pool_sanity_check_def run_scrub_def run_deep_scrub_def Let_def)
next
  have c1: "fst (change_recovery_threads E [] (str ''set'') w) = Inr ()"
    using assms(1) by (rule change_recovery_threads_ok)
  then obtain w1 where c1': "change_recovery_threads E [] (str ''set'') w = (Inr (), w1)"
    by (cases "change_recovery_threads E [] (str ''set'') w") simp
  have a: "\<forall>n. ncalls w1 \<le> n \<longrightarrow>
             (\<exists>S ks. fetched E False (str ''ceph report'') n = Inr S \<and>
                     reweight_pred S = Inr (Some False) \<and> health_checks S = Inr ks)"
    using assms(3) by blast
  have "fst (verify_reweight_loop E (clock w1 + 1200 * 1000000) None w1) = Inr (Some False)"
    using a by (rule verify_reweight_loop_all_false) simp
  then obtain w2 where l: "verify_reweight_loop E (clock w1 + 1200 * 1000000) None w1
                           = (Inr (Some False), w2)"
    by (cases "verify_reweight_loop E (clock w1 + 1200 * 1000000) None w1") simp
  have "fst (change_recovery_threads E [] (str ''rm'') w2) = Inr ()"
    using assms(1) by (rule change_recovery_threads_ok)
  then obtain w3 where c2: "change_recovery_threads E [] (str ''rm'') w2 = (Inr (), w3)"
    by (cases "change_recovery_threads E [] (str ''rm'') w2") simp
  show "fst (verify_reweight E check_utilization w) = Inr False"
    using c1' l c2 by (simp add: verify_reweight_def)
qed

text \<open>
  The cluster with the warning that stays has a transport that never fails, and its
  report shows a remapped placement group as well.
\<close>

theorem deadline_expiry_returns_False_witness:
  "(\<forall>n t c. \<exists>out. outcome (respond slow_warning n t c) = Inr out) \<and>
   (\<forall>n. \<exists>S. fetched slow_warning True (str ''ceph report'') n = Inr S \<and>
            sanity_flag S = Inr False) \<and>
   (\<forall>n. \<exists>S ks. fetched slow_warning False (str ''ceph report'') n = Inr S \<and>
               reweight_pred S = Inr (Some False) \<and> health_checks S = Inr ks) \<and>
   fst (run_pool_sanity_check slow_warning world0) = Inr False \<and>
   fst (verify_reweight slow_warning (\<lambda>w. (Inr True, w)) world0) = Inr False"
proof -
  have a1: "\<forall>n t c. \<exists>out. outcome (respond slow_warning n t c) = Inr out"
    by (simp add: slow_warning_def answering_def prints_def)
  have a2: "\<forall>n. \<exists>S. fetched slow_warning True (str ''ceph report'') n = Inr S \<and>
            sanity_flag S = Inr False"
    using fetched_slow_warning sanity_flag_busy by blast
  have a3: "\<forall>n. \<exists>S ks. fetched slow_warning False (str ''ceph report'') n = Inr S \<and>
               reweight_pred S = Inr (Some False) \<and> health_checks S = Inr ks"
    using fetched_slow_warning reweight_pred_busy health_checks_busy by blast
  show ?thesis
    using a1 a2 a3
      deadline_expiry_returns_False [OF a1 a2 a3, of world0 "\<lambda>w. (Inr True, w)"]
    by blast
qed

subsection \<open>An empty list of placement group states\<close>

lemma verify_reweight_loop_empty_unbound:
  assumes "clock w < end_time"
    and "fetched E False (str ''ceph report'') (ncalls w) = Inr S"
    and "pg_states S = Inr []"
  shows "verify_reweight_loop E end_time None w = (Inl UnboundLocalError, after_report E w)"
  using assms
  by (subst verify_reweight_loop.simps, subst run_ceph_command_eq) simp

lemma verify_reweight_loop_empty_bound:
  assumes "clock w < end_time"
    and "fetched E False (str ''ceph report'') (ncalls w) = Inr S"
    and "pg_states S = Inr []"
    and "health_checks S = Inr ks"
  shows "verify_reweight_loop E end_time (Some False) w =
         verify_reweight_loop E end_time (Some False)
           (sleep 60 (log_at INFO ''Waiting for active + clean'' (after_report E w)))"
  using assms
  by (subst verify_reweight_loop.simps, subst run_ceph_command_eq) simp

text \<open>
  C8, as amended. Let a fetch of the loop of \<open>verify_reweight\<close> return a report whose
  list of placement group states is empty. If it is the first fetch, that is, the
  loop starts in the world \<open>w\<close> that \<open>change_recovery_threads\<close> has left, \<open>flag\<close> is
  not bound and \<open>verify_reweight\<close> raises \<open>UnboundLocalError\<close>. In a later iteration
  \<open>flag\<close> still has the value \<open>False\<close> of the iteration before: the loop sleeps and
  goes on, as for a condition that is not yet met.
\<close>

theorem verify_reweight_empty_collection:
  assumes "fetched E False (str ''ceph report'') (ncalls w) = Inr S"
    and "pg_states S = Inr []"
  shows "(change_recovery_threads E [] (str ''set'') w0 = (Inr (), w)
          \<longrightarrow> fst (verify_reweight E check_utilization w0) = Inl UnboundLocalError) \<and>
         (clock w < end_time \<and> health_checks S = Inr ks
          \<longrightarrow> verify_reweight_loop E end_time (Some False) w =
              verify_reweight_loop E end_time (Some False)
                (sleep 60 (log_at INFO ''Waiting for active + clean'' (after_report E w))))"
proof (intro conjI impI)
  assume c: "change_recovery_threads E [] (str ''set'') w0 = (Inr (), w)"
  have "clock w < clock w + 1200 * 1000000" by simp
  then have "verify_reweight_loop E (clock w + 1200 * 1000000) None w
             = (Inl UnboundLocalError, after_report E w)"
    using assms by (rule verify_reweight_loop_empty_unbound)
  with c show "fst (verify_reweight E check_utilization w0) = Inl UnboundLocalError"
    by (simp add: verify_reweight_def)
next
  assume "clock w < end_time \<and> health_checks S = Inr ks"
  then have "clock w < end_time" and "health_checks S = Inr ks"
    by simp_all
  with assms show "verify_reweight_loop E end_time (Some False) w =
              verify_reweight_loop E end_time (Some False)
                (sleep 60 (log_at INFO ''Waiting for active + clean'' (after_report E w)))"
    by (intro verify_reweight_loop_empty_bound [where S = S and ks = ks])
qed

text \<open>A report without placement group states.\<close>

definition report_empty :: string where
  "report_empty = ''{\"num_pg_by_state\": [], \"health\": {\"checks\": {}}}''"

definition doc_empty :: json where
  "doc_empty =
     JObj [(str ''num_pg_by_state'', JArr []),
           (str ''health'', JObj [(str ''checks'', JObj [])])]"

lemma report_empty_loads: "json_loads (str report_empty) = Inr doc_empty"
  by (simp add: report_empty_def doc_empty_def decode_simps)

lemma report_empty_not_space: "\<not> isspace (str report_empty)"
  by (simp add: report_empty_def isspace_def is_whitespace_def str_def)

lemma pg_states_empty: "pg_states doc_empty = Inr []"
  by (simp add: pg_states_def doc_empty_def)

lemma health_checks_empty: "health_checks doc_empty = Inr []"
  by (simp add: health_checks_def doc_empty_def str_def)

text \<open>
  What \<open>change_recovery_threads\<close> does on a cluster whose queue is \<open>wpq\<close>: three
  commands, the first of which prints \<open>wpq\<close>.
\<close>

lemma change_recovery_threads_scripted:
  assumes "ncalls w = n" and "n + 2 < length rs"
    and "outcome (rs ! n) = Inr (str ''wpq'')"
    and "outcome (rs ! (n + 1)) = Inr o1" and "outcome (rs ! (n + 2)) = Inr o2"
  shows "fst (change_recovery_threads (scripted rs) [] action w) = Inr () \<and>
         ncalls (snd (change_recovery_threads (scripted rs) [] action w)) = n + 3 \<and>
         sleeps (snd (change_recovery_threads (scripted rs) [] action w)) = sleeps w \<and>
         clock (snd (change_recovery_threads (scripted rs) [] action w))
         = clock w + latency (rs ! n) + latency (rs ! (n + 1)) + latency (rs ! (n + 2))"
proof -
  have "\<not> str_contains (ascii_lower (str ''mclock'')) (ascii_lower (str ''wpq''))"
    by (simp add: ascii_lower_def str_def)
  with assms show ?thesis
    by (simp add: change_recovery_threads_def check_osd_op_queue_def exec_command_def
        Let_def scripted_def)
qed

definition empty_first :: env where
  "empty_first = scripted [prints 0 ''wpq'', prints 0 [], prints 0 [], prints 0 report_empty]"

theorem verify_reweight_empty_collection_witness:
  "fetched empty_first False (str ''ceph report'')
     (ncalls (snd (change_recovery_threads empty_first [] (str ''set'') world0)))
     = Inr doc_empty \<and>
   pg_states doc_empty = Inr [] \<and>
   change_recovery_threads empty_first [] (str ''set'') world0
     = (Inr (), snd (change_recovery_threads empty_first [] (str ''set'') world0)) \<and>
   fst (verify_reweight empty_first (\<lambda>w. (Inr True, w)) world0) = Inl UnboundLocalError \<and>
   clock (snd (change_recovery_threads empty_first [] (str ''set'') world0)) < 1200000000 \<and>
   health_checks doc_empty = Inr [] \<and>
   verify_reweight_loop empty_first 1200000000 (Some False)
     (snd (change_recovery_threads empty_first [] (str ''set'') world0))
   = verify_reweight_loop empty_first 1200000000 (Some False)
       (sleep 60 (log_at INFO ''Waiting for active + clean''
          (after_report empty_first
             (snd (change_recovery_threads empty_first [] (str ''set'') world0)))))"
proof -
  let ?w = "snd (change_recovery_threads empty_first [] (str ''set'') world0)"
  have crt: "fst (change_recovery_threads empty_first [] (str ''set'') world0) = Inr () \<and>
             ncalls ?w = 3 \<and> clock ?w = 0"
    using change_recovery_threads_scripted
      [of world0 0 "[prints 0 ''wpq'', prints 0 [], prints 0 [], prints 0 report_empty]"
          "[]" "[]" "str ''set''"]
    by (simp add: empty_first_def world0_def prints_def)
  have f: "fetched empty_first False (str ''ceph report'') (ncalls ?w) = Inr doc_empty"
    using crt
    by (simp add: empty_first_def fetched_scripted prints_def report_empty_not_space
        report_empty_loads)
  have c: "change_recovery_threads empty_first [] (str ''set'') world0 = (Inr (), ?w)"
    using crt by (simp add: prod_eq_iff)
  have t: "clock ?w < 1200000000"
    using crt by simp
  note r = verify_reweight_empty_collection [OF f pg_states_empty,
      of world0 "\<lambda>w. (Inr True, w)" 1200000000 "[]"]
  show ?thesis
    using f pg_states_empty c t health_checks_empty r by blast
qed

text \<open>
  C8, as stated, fails. The first report shows a remapped placement group, the
  second no placement group states at all, the third only clean ones. In the second
  iteration \<open>flag\<close> is bound (to \<open>False\<close>): nothing is raised, the loop sleeps a second
  time, and \<open>verify_reweight\<close> returns \<open>True\<close>.
\<close>

definition empty_second :: env where
  "empty_second =
     scripted [prints 0 ''wpq'', prints 0 [], prints 0 [],
               prints 0 report_busy, prints 0 report_empty, prints 0 report_clean,
               prints 0 ''wpq'', prints 0 [], prints 0 []]"

theorem verify_reweight_empty_later_counterexample:
  "fetched empty_second False (str ''ceph report'') 4 = Inr doc_empty \<and>
   pg_states doc_empty = Inr [] \<and>
   fst (verify_reweight empty_second (\<lambda>w. (Inr True, w)) world0) = Inr True \<and>
   ncalls (snd (verify_reweight empty_second (\<lambda>w. (Inr True, w)) world0)) = 9 \<and>
   sleeps (snd (verify_reweight empty_second (\<lambda>w. (Inr True, w)) world0)) = [60, 60]"
proof -
  let ?rs = "[prints 0 ''wpq'', prints 0 [], prints 0 [],
               prints 0 report_busy, prints 0 report_empty, prints 0 report_clean,
               prints 0 ''wpq'', prints 0 [], prints 0 []]"
  let ?E = "scripted ?rs"
  let ?next = "\<lambda>w. sleep 60 (log_at INFO ''Waiting for active + clean'' (after_report ?E w))"
  have E: "empty_second = ?E" by (simp add: empty_second_def)
  obtain w1 where c1: "change_recovery_threads ?E [] (str ''set'') world0 = (Inr (), w1)"
    and n1: "ncalls w1 = 3" and s1: "sleeps w1 = []" and t1: "clock w1 = 0"
    using change_recovery_threads_scripted [of world0 0 ?rs "[]" "[]" "str ''set''"]
    by (cases "change_recovery_threads ?E [] (str ''set'') world0")
      (simp add: world0_def prints_def)
  have f3: "fetched ?E False (str ''ceph report'') 3 = Inr doc_busy"
    by (simp add: fetched_scripted prints_def report_busy_not_space report_busy_loads)
  have f4: "fetched ?E False (str ''ceph report'') 4 = Inr doc_empty"
    by (simp add: fetched_scripted prints_def report_empty_not_space report_empty_loads)
  have f5: "fetched ?E False (str ''ceph report'') 5 = Inr doc_clean"
    by (simp add: fetched_scripted prints_def report_clean_not_space report_clean_loads)
  have lat: "fetch_latency ?E False (str ''ceph report'') n = 0" if "n < 9" for n
  proof -
    have "n \<in> {0, 1, 2, 3, 4, 5, 6, 7, 8}" using that by auto
    then show ?thesis
      by (auto simp: fetch_latency_def scripted_def prints_def)
  qed
  let ?w2 = "?next w1" and ?w3 = "?next (?next w1)"
  let ?w4 = "log_at INFO ''The recovery and back-filling of the OSD is completed''
               (after_report ?E (?next (?next w1)))"
  have "verify_reweight_loop ?E (clock w1 + 1200 * 1000000) None w1
        = verify_reweight_loop ?E (clock w1 + 1200 * 1000000) (Some False) ?w2"
    by (rule verify_reweight_loop_false [where S = doc_busy])
      (simp_all add: n1 f3 reweight_pred_busy health_checks_busy)
  also have "\<dots> = verify_reweight_loop ?E (clock w1 + 1200 * 1000000) (Some False) ?w3"
    by (rule verify_reweight_loop_empty_bound [where S = doc_empty])
      (simp_all add: ncalls_run_ceph_command clock_run_ceph_command' lat n1 t1 f4
        pg_states_empty health_checks_empty)
  also have "\<dots> = (Inr (Some True), ?w4)"
    by (rule verify_reweight_loop_true [where S = doc_clean])
      (simp_all add: ncalls_run_ceph_command clock_run_ceph_command' lat n1 t1 f5
        reweight_pred_clean)
  finally have l: "verify_reweight_loop ?E (clock w1 + 1200 * 1000000) None w1
                   = (Inr (Some True), ?w4)" .
  have n4: "ncalls ?w4 = 6" and s4: "sleeps ?w4 = [60, 60]"
    by (simp_all add: ncalls_run_ceph_command sleeps_run_ceph_command n1 s1)
  obtain w5 where c2: "change_recovery_threads ?E [] (str ''rm'') ?w4 = (Inr (), w5)"
    and n5: "ncalls w5 = 9" and s5: "sleeps w5 = [60, 60]"
    using change_recovery_threads_scripted [of ?w4 6 ?rs "[]" "[]" "str ''rm''"] n4 s4
    by (cases "change_recovery_threads ?E [] (str ''rm'') ?w4") (simp add: prints_def)
  have "verify_reweight ?E (\<lambda>w. (Inr True, w)) world0 = (Inr True, w5)"
    using c1 l c2 by (simp add: verify_reweight_def)
  then show ?thesis
    using f4 pg_states_empty n5 s5 by (simp add: E)
qed

end
